theory Spec2Isabelle
  imports Main
begin

section \<open>Python values shared by the components\<close>

text \<open>
  Exceptions are values: a class tag and the text that \<^verbatim>\<open>str(e)\<close> gives.  A function
  of the source that can raise returns \<open>exn + 'a\<close>, with \<open>Inl\<close> for the raised exception.
  Strings are lists of 8-bit characters (code points 0 to 255).
\<close>

datatype exn_class =
  ValueError | TypeError | KeyError | ClientError | TimeoutError | RedisError | OtherError

datatype exn = Exn exn_class string

fun str_exn :: "exn \<Rightarrow> string" where
  "str_exn (Exn c m) = m"

fun class_of :: "exn \<Rightarrow> exn_class" where
  "class_of (Exn c m) = c"

text \<open>A string between single quotes, as Python's messages show it.\<close>

definition quoted :: "string \<Rightarrow> string" where
  "quoted s = [CHR 0x27] @ s @ [CHR 0x27]"

text \<open>A JSON-serialisable value (\<^verbatim>\<open>Dict[str, Any]\<close>, \<^verbatim>\<open>Any\<close> in the source).\<close>

datatype json =
  JNull | JBool bool | JNum int | JStr string | JArr "json list" | JObj "(string \<times> json) list"

text \<open>\<^verbatim>\<open>d.update(e)\<close> on dictionaries kept as association lists in insertion order.\<close>

fun dict_set :: "('k \<times> 'v) list \<Rightarrow> 'k \<Rightarrow> 'v \<Rightarrow> ('k \<times> 'v) list" where
  "dict_set [] k v = [(k, v)]"
| "dict_set ((k', v') # d) k v = (if k' = k then (k, v) # d else (k', v') # dict_set d k v)"

fun dict_update :: "('k \<times> 'v) list \<Rightarrow> ('k \<times> 'v) list \<Rightarrow> ('k \<times> 'v) list" where
  "dict_update d [] = d"
| "dict_update d ((k, v) # e) = dict_update (dict_set d k v) e"

section \<open>Messages (api/models.py)\<close>

datatype role = User | Assistant | System | Tool

record message =
  role :: role
  content :: string
  name :: "string option"
  tool_calls :: "json list option"
  tool_call_id :: "string option"

section \<open>The session store (utils/session_manager.py)\<close>

subsection \<open>The Redis connection\<close>

text \<open>
  A stored session is the dictionary that \<^verbatim>\<open>json.dumps\<close> writes and \<^verbatim>\<open>json.loads\<close> reads
  back; each of its four keys can be missing (\<^verbatim>\<open>update_chat_history\<close> starts from
  \<^verbatim>\<open>{"chat_history": []}\<close> when there is no session).  Timestamps are seconds.
\<close>

record session =
  created_at :: "int option"
  updated_at :: "int option"
  data :: "(string \<times> json) list option"
  chat_history :: "message list option"

text \<open>
  The server keeps, for every key, the value and the instant at which it expires
  (\<^verbatim>\<open>ex=\<close> seconds after the write).  \<open>faults\<close> is the list of outcomes the environment
  has in store for the coming commands, one entry a command: \<open>Some e\<close> makes the command
  raise \<open>e\<close> (connection lost, timeout) and leave the data alone; an empty list means
  that every command goes through.
\<close>

record redis_conn =
  store :: "string \<rightharpoonup> (session \<times> int)"
  faults :: "exn option list"

definition next_fault :: "redis_conn \<Rightarrow> exn option \<times> redis_conn" where
  "next_fault r = (case faults r of [] \<Rightarrow> (None, r) | f # fs \<Rightarrow> (f, r\<lparr>faults := fs\<rparr>))"

definition visible :: "redis_conn \<Rightarrow> int \<Rightarrow> string \<Rightarrow> session option" where
  "visible r now k =
     (case store r k of None \<Rightarrow> None
      | Some (v, deadline) \<Rightarrow> if now < deadline then Some v else None)"

definition redis_get :: "redis_conn \<Rightarrow> int \<Rightarrow> string \<Rightarrow> (exn + session option) \<times> redis_conn" where
  "redis_get r now k =
     (case next_fault r of
        (Some e, r') \<Rightarrow> (Inl e, r')
      | (None, r') \<Rightarrow> (Inr (visible r' now k), r'))"

definition redis_set ::
  "redis_conn \<Rightarrow> int \<Rightarrow> string \<Rightarrow> session \<Rightarrow> int \<Rightarrow> (exn + unit) \<times> redis_conn" where
  "redis_set r now k v ex =
     (case next_fault r of
        (Some e, r') \<Rightarrow> (Inl e, r')
      | (None, r') \<Rightarrow>
          if ex \<le> 0 then (Inl (Exn RedisError ''invalid expire time in set''), r')
          else (Inr (), r'\<lparr>store := (store r')(k \<mapsto> (v, now + ex))\<rparr>))"

definition redis_delete :: "redis_conn \<Rightarrow> int \<Rightarrow> string \<Rightarrow> (exn + int) \<times> redis_conn" where
  "redis_delete r now k =
     (case next_fault r of
        (Some e, r') \<Rightarrow> (Inl e, r')
      | (None, r') \<Rightarrow>
          (Inr (case visible r' now k of None \<Rightarrow> 0 | Some v \<Rightarrow> 1),
           r'\<lparr>store := (store r')(k := None)\<rparr>))"

subsection \<open>SessionManager\<close>

record session_manager =
  redis :: "redis_conn option"
  session_expire_seconds :: int
  logged :: "string list"

definition log_error :: "session_manager \<Rightarrow> string \<Rightarrow> session_manager" where
  "log_error sm line = sm\<lparr>logged := logged sm @ [line]\<rparr>"

definition session_key :: "string \<Rightarrow> string" where
  "session_key session_id = ''session:'' @ session_id"

text \<open>\<^verbatim>\<open>create_session\<close>; the UUID it draws is the argument \<open>session_id\<close>.\<close>

definition create_session ::
  "session_manager \<Rightarrow> int \<Rightarrow> string \<Rightarrow> (string \<times> json) list option \<Rightarrow> string \<times> session_manager" where
  "create_session sm now session_id initial_data =
     (let session_data = \<lparr>created_at = Some now, updated_at = Some now,
            data = Some (case initial_data of None \<Rightarrow> [] | Some d \<Rightarrow> d),
            chat_history = Some []\<rparr>
      in case redis sm of
           None \<Rightarrow> (session_id, sm)
         | Some r \<Rightarrow>
            (case redis_set r now (session_key session_id) session_data (session_expire_seconds sm) of
               (Inl e, r1) \<Rightarrow>
                 (session_id, log_error (sm\<lparr>redis := Some r1\<rparr>)
                    (''Error creating session in Redis: '' @ str_exn e))
             | (Inr u, r1) \<Rightarrow> (session_id, sm\<lparr>redis := Some r1\<rparr>)))"

definition get_session ::
  "session_manager \<Rightarrow> int \<Rightarrow> string \<Rightarrow> session option \<times> session_manager" where
  "get_session sm now session_id =
     (if session_id = [] then (None, sm)
      else case redis sm of
        None \<Rightarrow> (None, sm)
      | Some r \<Rightarrow>
         (case redis_get r now (session_key session_id) of
            (Inl e, r1) \<Rightarrow>
              (None, log_error (sm\<lparr>redis := Some r1\<rparr>)
                 (''Error getting session from Redis: '' @ str_exn e))
          | (Inr None, r1) \<Rightarrow> (None, sm\<lparr>redis := Some r1\<rparr>)
          | (Inr (Some session_data), r1) \<Rightarrow>
             (let session = session_data\<lparr>updated_at := Some now\<rparr>
              in case redis_set r1 now (session_key session_id) session (session_expire_seconds sm) of
                   (Inl e, r2) \<Rightarrow>
                     (None, log_error (sm\<lparr>redis := Some r2\<rparr>)
                        (''Error getting session from Redis: '' @ str_exn e))
                 | (Inr u, r2) \<Rightarrow> (Some session, sm\<lparr>redis := Some r2\<rparr>))))"

definition update_session ::
  "session_manager \<Rightarrow> int \<Rightarrow> string \<Rightarrow> (string \<times> json) list \<Rightarrow> bool \<times> session_manager" where
  "update_session sm now session_id new_data =
     (if session_id = [] \<or> new_data = [] then (False, sm)
      else case redis sm of
        None \<Rightarrow> (False, sm)
      | Some r0 \<Rightarrow>
         (case get_session sm now session_id of
            (None, sm1) \<Rightarrow> (False, sm1)
          | (Some session, sm1) \<Rightarrow>
             (case data session of
                None \<Rightarrow> (False, log_error sm1 (''Error updating session in Redis: '' @ quoted ''data''))
              | Some d \<Rightarrow>
                 (case redis sm1 of
                    None \<Rightarrow> (False, sm1)
                  | Some r1 \<Rightarrow>
                     (case redis_set r1 now (session_key session_id)
                             (session\<lparr>data := Some (dict_update d new_data), updated_at := Some now\<rparr>)
                             (session_expire_seconds sm) of
                        (Inl e, r2) \<Rightarrow>
                          (False, log_error (sm1\<lparr>redis := Some r2\<rparr>)
                             (''Error updating session in Redis: '' @ str_exn e))
                      | (Inr u, r2) \<Rightarrow> (True, sm1\<lparr>redis := Some r2\<rparr>))))))"

definition delete_session :: "session_manager \<Rightarrow> int \<Rightarrow> string \<Rightarrow> bool \<times> session_manager" where
  "delete_session sm now session_id =
     (if session_id = [] then (False, sm)
      else case redis sm of
        None \<Rightarrow> (False, sm)
      | Some r \<Rightarrow>
         (case redis_delete r now (session_key session_id) of
            (Inl e, r1) \<Rightarrow>
              (False, log_error (sm\<lparr>redis := Some r1\<rparr>)
                 (''Error deleting session from Redis: '' @ str_exn e))
          | (Inr n, r1) \<Rightarrow> (n \<noteq> 0, sm\<lparr>redis := Some r1\<rparr>)))"

definition get_chat_history ::
  "session_manager \<Rightarrow> int \<Rightarrow> string \<Rightarrow> message list \<times> session_manager" where
  "get_chat_history sm now session_id =
     (case get_session sm now session_id of
        (Some session, sm1) \<Rightarrow>
          (case chat_history session of Some h \<Rightarrow> (h, sm1) | None \<Rightarrow> ([], sm1))
      | (None, sm1) \<Rightarrow> ([], sm1))"

text \<open>
  \<^verbatim>\<open>xs[-n:]\<close> for a positive \<open>n\<close>: the last \<open>n\<close> elements, the whole list when it is
  shorter (the subtraction on \<open>nat\<close> stops at 0, as the slice clamps its start).
\<close>

definition last_n :: "nat \<Rightarrow> 'a list \<Rightarrow> 'a list" where
  "last_n n xs = drop (length xs - n) xs"

definition max_history :: nat where
  "max_history = 50"

definition update_chat_history ::
  "session_manager \<Rightarrow> int \<Rightarrow> string \<Rightarrow> message list \<Rightarrow> bool \<times> session_manager" where
  "update_chat_history sm now session_id messages =
     (if session_id = [] \<or> messages = [] then (False, sm)
      else case redis sm of
        None \<Rightarrow> (False, sm)
      | Some r0 \<Rightarrow>
         (case get_session sm now session_id of (found, sm1) \<Rightarrow>
            (let session0 = (case found of
                               None \<Rightarrow> \<lparr>created_at = None, updated_at = None, data = None,
                                         chat_history = Some []\<rparr>
                             | Some s \<Rightarrow> s);
                 history = (case chat_history session0 of None \<Rightarrow> [] | Some h \<Rightarrow> h);
                 session = session0\<lparr>chat_history := Some (last_n max_history (history @ messages)),
                                    updated_at := Some now\<rparr>
             in case redis sm1 of
                  None \<Rightarrow> (False, sm1)
                | Some r1 \<Rightarrow>
                   (case redis_set r1 now (session_key session_id) session (session_expire_seconds sm) of
                      (Inl e, r2) \<Rightarrow>
                        (False, log_error (sm1\<lparr>redis := Some r2\<rparr>)
                           (''Error updating chat history in Redis: '' @ str_exn e))
                    | (Inr u, r2) \<Rightarrow> (True, sm1\<lparr>redis := Some r2\<rparr>)))))"

definition clear_chat_history :: "session_manager \<Rightarrow> int \<Rightarrow> string \<Rightarrow> bool \<times> session_manager" where
  "clear_chat_history sm now session_id = update_chat_history sm now session_id []"

definition clear_session :: "session_manager \<Rightarrow> int \<Rightarrow> string \<Rightarrow> bool \<times> session_manager" where
  "clear_session sm now session_id = delete_session sm now session_id"

subsection \<open>Observing the store\<close>

text \<open>
  What a read of the session's key at time \<open>now\<close> finds as chat history, and the keys
  the server holds; both are used to state properties, neither is part of the source.
\<close>

definition history_of :: "session option \<Rightarrow> message list" where
  "history_of found =
     (case found of None \<Rightarrow> []
      | Some s \<Rightarrow> (case chat_history s of None \<Rightarrow> [] | Some h \<Rightarrow> h))"

definition history_at :: "session_manager \<Rightarrow> int \<Rightarrow> string \<Rightarrow> message list" where
  "history_at sm now session_id =
     (case redis sm of None \<Rightarrow> []
      | Some r \<Rightarrow> history_of (visible r now (session_key session_id)))"

definition stored_keys :: "session_manager \<Rightarrow> string set" where
  "stored_keys sm = (case redis sm of None \<Rightarrow> {} | Some r \<Rightarrow> dom (store r))"

text \<open>
  The store works: the connection exists, no command is going to fail, and the configured
  time to live is one the server accepts.
\<close>

definition store_ok :: "session_manager \<Rightarrow> bool" where
  "store_ok sm = (0 < session_expire_seconds sm \<and>
     (case redis sm of None \<Rightarrow> False | Some r \<Rightarrow> faults r = []))"

text \<open>
  A sequence of \<^verbatim>\<open>update_chat_history\<close> calls on one session id, each with the time at
  which it runs.  \<open>in_time ttl t calls\<close>: every call arrives before the key written at the
  previous instant (\<open>t\<close> at first) has expired.
\<close>

fun run_updates ::
  "session_manager \<Rightarrow> string \<Rightarrow> (int \<times> message list) list \<Rightarrow> bool list \<times> session_manager" where
  "run_updates sm session_id [] = ([], sm)"
| "run_updates sm session_id ((now, messages) # calls) =
     (case update_chat_history sm now session_id messages of (ok, sm1) \<Rightarrow>
        (case run_updates sm1 session_id calls of (oks, sm2) \<Rightarrow> (ok # oks, sm2)))"

fun in_time :: "int \<Rightarrow> int \<Rightarrow> (int \<times> 'a) list \<Rightarrow> bool" where
  "in_time ttl t [] = True"
| "in_time ttl t ((now, m) # calls) = (now < t + ttl \<and> in_time ttl now calls)"

fun last_time :: "int \<Rightarrow> (int \<times> 'a) list \<Rightarrow> int" where
  "last_time t [] = t"
| "last_time t ((now, m) # calls) = last_time now calls"

text \<open>The session that \<^verbatim>\<open>update_chat_history\<close> writes when it found \<open>found\<close>.\<close>

definition appended :: "session option \<Rightarrow> int \<Rightarrow> message list \<Rightarrow> session" where
  "appended found now messages =
     (case found of
        None \<Rightarrow> \<lparr>created_at = None, updated_at = Some now, data = None,
                  chat_history = Some (last_n max_history messages)\<rparr>
      | Some s \<Rightarrow> s\<lparr>chat_history := Some (last_n max_history (history_of (Some s) @ messages)),
                     updated_at := Some now\<rparr>)"

text \<open>
  The commands \<^verbatim>\<open>get_session\<close> sends are the read and, when the key is there, the write
  that refreshes it: the store errors during \<^verbatim>\<open>get_session\<close> when one of these two is
  going to fail.
\<close>

fun get_session_faulty :: "exn option list \<Rightarrow> bool" where
  "get_session_faulty (Some e # fs) = True"
| "get_session_faulty (None # Some e # fs) = True"
| "get_session_faulty fs = False"

section \<open>The agent (agents/main_agent.py)\<close>

text \<open>
  The LangChain executor is outside the repository: it is a parameter, a function from the
  input and the prior context to an exception or a result.  A result is the dictionary
  \<^verbatim>\<open>ainvoke\<close> returns; its keys \<^verbatim>\<open>output\<close> and \<^verbatim>\<open>intermediate_steps\<close> may be missing.
\<close>

datatype lc_message = HumanMessage string | AIMessage string | SystemMessage string

datatype pyobj = AgentAction string json | Obj json

record agent_result =
  result_output :: "string option"
  intermediate_steps :: "pyobj list list option"

type_synonym agent_executor = "string \<Rightarrow> lc_message list \<Rightarrow> exn + agent_result"

record tool_call =
  tool_name :: string
  tool_input :: json
  result :: pyobj

record agent_response =
  reply :: message
  reply_tool_calls :: "tool_call list option"

definition assistant_message :: "string \<Rightarrow> message" where
  "assistant_message text =
     \<lparr>role = Assistant, content = text, name = None, tool_calls = None, tool_call_id = None\<rparr>"

text \<open>The loop over \<^verbatim>\<open>messages\<close>: the converted history and the last user content seen.\<close>

fun convert_messages ::
  "message list \<Rightarrow> lc_message list \<Rightarrow> string option \<Rightarrow> lc_message list \<times> string option" where
  "convert_messages [] chat last_user_message = (chat, last_user_message)"
| "convert_messages (msg # msgs) chat last_user_message =
     (case role msg of
        User \<Rightarrow> convert_messages msgs (chat @ [HumanMessage (content msg)]) (Some (content msg))
      | Assistant \<Rightarrow> convert_messages msgs (chat @ [AIMessage (content msg)]) last_user_message
      | System \<Rightarrow> convert_messages msgs (chat @ [SystemMessage (content msg)]) last_user_message
      | Tool \<Rightarrow> convert_messages msgs chat last_user_message)"

fun step_tool_calls :: "pyobj list list \<Rightarrow> tool_call list" where
  "step_tool_calls [] = []"
| "step_tool_calls (step # steps) =
     (case step of
        AgentAction t i # observation # rest \<Rightarrow>
          \<lparr>tool_name = t, tool_input = i, result = observation\<rparr> # step_tool_calls steps
      | other \<Rightarrow> step_tool_calls steps)"

text \<open>
  \<^verbatim>\<open>MultiAgent.arun\<close>.  The second component is the list of calls made to the executor,
  each with its \<^verbatim>\<open>input\<close> and \<^verbatim>\<open>chat_history\<close>.
\<close>

definition arun ::
  "agent_executor \<Rightarrow> message list \<Rightarrow> agent_response \<times> (string \<times> lc_message list) list" where
  "arun executor messages =
     (case convert_messages messages [] None of (chat, last_user_message) \<Rightarrow>
        (case last_user_message of
           None \<Rightarrow>
             (\<lparr>reply = assistant_message ''I didn't receive any user message to process.'',
               reply_tool_calls = None\<rparr>, [])
         | Some input \<Rightarrow>
             if input = [] then
               (\<lparr>reply = assistant_message ''I didn't receive any user message to process.'',
                 reply_tool_calls = None\<rparr>, [])
             else
               (let context = (if length chat > 1 then butlast chat else [])
                in case executor input context of
                     Inl e \<Rightarrow>
                       (\<lparr>reply = assistant_message
                            (''I encountered an error while processing your request: '' @ str_exn e),
                         reply_tool_calls = None\<rparr>, [(input, context)])
                   | Inr res \<Rightarrow>
                       (let response_content = (case result_output res of
                              None \<Rightarrow> ''I apologize, but I encountered an error processing your request.''
                            | Some text \<Rightarrow> text);
                            calls = (case intermediate_steps res of
                              None \<Rightarrow> [] | Some steps \<Rightarrow> step_tool_calls steps)
                        in (\<lparr>reply = assistant_message response_content,
                             reply_tool_calls = (if calls = [] then None else Some calls)\<rparr>,
                            [(input, context)])))))"





section \<open>The chat endpoint (api/routes.py)\<close>

datatype http_error = HTTPException int string

record chat_request =
  request_messages :: "message list"
  request_session_id :: "string option"

record chat_response =
  response_message :: message
  response_session_id :: string
  response_tool_calls :: "tool_call list option"

text \<open>
  \<^verbatim>\<open>chat\<close>: \<open>fresh_id\<close> is the UUID a new session would get.  The remaining request
  fields (\<^verbatim>\<open>stream\<close>, \<^verbatim>\<open>temperature\<close>, \<^verbatim>\<open>max_tokens\<close>) are handed to the executor untouched
  and are part of that parameter.  Every call inside the handler's \<^verbatim>\<open>try\<close> catches its
  own exceptions, so the handler's \<^verbatim>\<open>except\<close> branch has nothing to catch.
\<close>

text \<open>\<^verbatim>\<open>request.session_id or session_manager.create_session()\<close>\<close>

definition session_of_request ::
  "session_manager \<Rightarrow> int \<Rightarrow> string \<Rightarrow> chat_request \<Rightarrow> string \<times> session_manager" where
  "session_of_request sm now fresh_id request =
     (case request_session_id request of
        None \<Rightarrow> create_session sm now fresh_id None
      | Some i \<Rightarrow> if i = [] then create_session sm now fresh_id None else (i, sm))"

definition chat ::
  "agent_executor \<Rightarrow> session_manager \<Rightarrow> int \<Rightarrow> string \<Rightarrow> chat_request \<Rightarrow>
     (http_error + chat_response) \<times> session_manager" where
  "chat executor sm now fresh_id request =
     (case session_of_request sm now fresh_id request of
        (sid, sm1) \<Rightarrow>
          (case get_chat_history sm1 now sid of (stored, sm2) \<Rightarrow>
             (let history = stored @ request_messages request;
                  response = fst (arun executor history)
              in case update_chat_history sm2 now sid (history @ [reply response]) of
                   (ok, sm3) \<Rightarrow>
                     (Inr \<lparr>response_message = reply response, response_session_id = sid,
                           response_tool_calls = reply_tool_calls response\<rparr>, sm3))))"

section \<open>Regular expressions (Python's \<^verbatim>\<open>re\<close>, as far as the parser uses it)\<close>

text \<open>
  Character predicates of \<^verbatim>\<open>str\<close> on code points 0 to 255: \<^verbatim>\<open>\s\<close> and \<^verbatim>\<open>str.strip\<close> use
  \<^verbatim>\<open>isspace\<close>, \<^verbatim>\<open>\w\<close> is \<^verbatim>\<open>isalnum\<close> or the underscore.  \<^verbatim>\<open>str.lower\<close> maps the
  letters A to Z and the accented capitals 192 to 222 (not the sign 215); \<^verbatim>\<open>str.upper\<close> is
  its inverse on these, and leaves alone the three letters (181, 223, 255) whose capital
  lies outside the range.  Under \<^verbatim>\<open>re.IGNORECASE\<close> two characters match when their lower
  cases agree.
\<close>

definition code :: "char \<Rightarrow> nat" where
  "code c = of_char c"

definition isspace :: "char \<Rightarrow> bool" where
  "isspace c = (let n = code c in (9 \<le> n \<and> n \<le> 13) \<or> (28 \<le> n \<and> n \<le> 32) \<or> n = 133 \<or> n = 160)"

definition isword :: "char \<Rightarrow> bool" where
  "isword c = (let n = code c in
     (48 \<le> n \<and> n \<le> 57) \<or> (65 \<le> n \<and> n \<le> 90) \<or> n = 95 \<or> (97 \<le> n \<and> n \<le> 122)
     \<or> n = 170 \<or> n = 178 \<or> n = 179 \<or> n = 181 \<or> n = 185 \<or> n = 186
     \<or> (188 \<le> n \<and> n \<le> 190) \<or> (192 \<le> n \<and> n \<noteq> 215 \<and> n \<noteq> 247))"

definition lower_char :: "char \<Rightarrow> char" where
  "lower_char c = (let n = code c in
     if (65 \<le> n \<and> n \<le> 90) \<or> (192 \<le> n \<and> n \<le> 222 \<and> n \<noteq> 215) then char_of (n + 32) else c)"

definition upper_char :: "char \<Rightarrow> char" where
  "upper_char c = (let n = code c in
     if (97 \<le> n \<and> n \<le> 122) \<or> (224 \<le> n \<and> n \<le> 254 \<and> n \<noteq> 247) then char_of (n - 32) else c)"

definition lower_str :: "string \<Rightarrow> string" where
  "lower_str s = map lower_char s"

definition upper_str :: "string \<Rightarrow> string" where
  "upper_str s = map upper_char s"

definition strip :: "string \<Rightarrow> string" where
  "strip s = rev (dropWhile isspace (rev (dropWhile isspace s)))"

fun startswith :: "string \<Rightarrow> string \<Rightarrow> bool" where
  "startswith s [] = True"
| "startswith [] (p # ps) = False"
| "startswith (x # xs) (p # ps) = (x = p \<and> startswith xs ps)"

text \<open>\<^verbatim>\<open>sub in s\<close> on strings.\<close>

fun contains :: "string \<Rightarrow> string \<Rightarrow> bool" where
  "contains [] sub = (sub = [])"
| "contains (x # xs) sub = (startswith (x # xs) sub \<or> contains xs sub)"

text \<open>\<^verbatim>\<open>s.split(c, 1)\<close> when \<open>c\<close> occurs in \<open>s\<close>: the parts before and after the first \<open>c\<close>.\<close>

definition split_once :: "char \<Rightarrow> string \<Rightarrow> string \<times> string" where
  "split_once c s = (takeWhile (\<lambda>x. x \<noteq> c) s, drop 1 (dropWhile (\<lambda>x. x \<noteq> c) s))"

text \<open>
  Patterns.  \<open>Star\<close> repeats one character class, greedily; that is the only repetition the
  parser's patterns contain.  \<open>Group n\<close> is the \<open>n\<close>-th capturing group, \<open>Bol\<close> is \<^verbatim>\<open>^\<close>,
  \<open>AnyChar\<close> is the dot under \<^verbatim>\<open>re.DOTALL\<close>.
\<close>

datatype atom = Ch char | Space | Word

datatype cls = OneOf "atom list" | NoneOf "atom list" | AnyChar

datatype regex =
  Bol | Lit string | Atom cls | Seq regex regex | Alt regex regex | Opt regex | Star cls
  | Group nat regex

definition plus :: "cls \<Rightarrow> regex" where
  "plus c = Seq (Atom c) (Star c)"

fun atom_match :: "bool \<Rightarrow> atom \<Rightarrow> char \<Rightarrow> bool" where
  "atom_match ic (Ch c) x = (if ic then lower_char x = lower_char c else x = c)"
| "atom_match ic Space x = isspace x"
| "atom_match ic Word x = isword x"

fun cls_match :: "bool \<Rightarrow> cls \<Rightarrow> char \<Rightarrow> bool" where
  "cls_match ic (OneOf as) x = list_ex (\<lambda>a. atom_match ic a x) as"
| "cls_match ic (NoneOf as) x = (\<not> list_ex (\<lambda>a. atom_match ic a x) as)"
| "cls_match ic AnyChar x = True"

fun lit_rest :: "bool \<Rightarrow> string \<Rightarrow> string \<Rightarrow> string option" where
  "lit_rest ic [] s = Some s"
| "lit_rest ic (c # cs) [] = None"
| "lit_rest ic (c # cs) (x # xs) = (if atom_match ic (Ch c) x then lit_rest ic cs xs else None)"

text \<open>
  A matcher state is the position reached, the text from there on, and the groups
  captured so far (latest first).  \<open>rmatch\<close> lists the states in which a pattern can end,
  in the order in which the backtracking matcher tries them; the first one is the match.
\<close>

type_synonym mstate = "nat \<times> string \<times> (nat \<times> string) list"

fun star_splits :: "bool \<Rightarrow> cls \<Rightarrow> nat \<Rightarrow> string \<Rightarrow> (nat \<times> string) list" where
  "star_splits ic c pos [] = [(pos, [])]"
| "star_splits ic c pos (x # xs) =
     (if cls_match ic c x then star_splits ic c (Suc pos) xs @ [(pos, x # xs)]
      else [(pos, x # xs)])"

fun rmatch :: "bool \<Rightarrow> regex \<Rightarrow> mstate \<Rightarrow> mstate list" where
  "rmatch ic Bol (pos, s, g) = (if pos = 0 then [(pos, s, g)] else [])"
| "rmatch ic (Lit l) (pos, s, g) =
     (case lit_rest ic l s of None \<Rightarrow> [] | Some s' \<Rightarrow> [(pos + length l, s', g)])"
| "rmatch ic (Atom c) (pos, s, g) =
     (case s of [] \<Rightarrow> [] | x # xs \<Rightarrow> if cls_match ic c x then [(Suc pos, xs, g)] else [])"
| "rmatch ic (Seq a b) st = concat (map (rmatch ic b) (rmatch ic a st))"
| "rmatch ic (Alt a b) st = rmatch ic a st @ rmatch ic b st"
| "rmatch ic (Opt a) st = rmatch ic a st @ [st]"
| "rmatch ic (Star c) (pos, s, g) = map (\<lambda>(p, s'). (p, s', g)) (star_splits ic c pos s)"
| "rmatch ic (Group n a) (pos, s, g) =
     map (\<lambda>(p, s', g'). (p, s', (n, take (p - pos) s) # g')) (rmatch ic a (pos, s, g))"

record match =
  m_start :: nat
  m_end :: nat
  m_groups :: "(nat \<times> string) list"

definition group :: "match \<Rightarrow> nat \<Rightarrow> string" where
  "group m n = (case map_of (m_groups m) n of None \<Rightarrow> [] | Some s \<Rightarrow> s)"

text \<open>\<^verbatim>\<open>re.search\<close>: the match at the leftmost position that has one.\<close>

fun search_from :: "bool \<Rightarrow> regex \<Rightarrow> nat \<Rightarrow> string \<Rightarrow> match option" where
  "search_from ic r pos [] =
     (case rmatch ic r (pos, [], []) of
        [] \<Rightarrow> None
      | (e, s', g) # others \<Rightarrow> Some \<lparr>m_start = pos, m_end = e, m_groups = g\<rparr>)"
| "search_from ic r pos (x # xs) =
     (case rmatch ic r (pos, x # xs, []) of
        [] \<Rightarrow> search_from ic r (Suc pos) xs
      | (e, s', g) # others \<Rightarrow> Some \<lparr>m_start = pos, m_end = e, m_groups = g\<rparr>)"

definition re_search :: "bool \<Rightarrow> regex \<Rightarrow> string \<Rightarrow> match option" where
  "re_search ic r s = search_from ic r 0 s"

text \<open>
  \<^verbatim>\<open>re.findall\<close>: the matches from left to right, each search resuming where the previous
  match ended (\<open>skip\<close> counts the characters still covered by it).
\<close>

fun findall_from :: "bool \<Rightarrow> regex \<Rightarrow> nat \<Rightarrow> nat \<Rightarrow> string \<Rightarrow> match list" where
  "findall_from ic r skip pos [] =
     (if 0 < skip then []
      else case rmatch ic r (pos, [], []) of
             [] \<Rightarrow> []
           | (e, s', g) # others \<Rightarrow> [\<lparr>m_start = pos, m_end = e, m_groups = g\<rparr>])"
| "findall_from ic r skip pos (x # xs) =
     (if 0 < skip then findall_from ic r (skip - 1) (Suc pos) xs
      else case rmatch ic r (pos, x # xs, []) of
             [] \<Rightarrow> findall_from ic r 0 (Suc pos) xs
           | (e, s', g) # others \<Rightarrow>
               \<lparr>m_start = pos, m_end = e, m_groups = g\<rparr>
                 # findall_from ic r (e - pos - 1) (Suc pos) xs)"

definition re_findall :: "bool \<Rightarrow> regex \<Rightarrow> string \<Rightarrow> match list" where
  "re_findall ic r s = findall_from ic r 0 0 s"

section \<open>The request parser (agents/tools/api_caller.py)\<close>

subsection \<open>The patterns of the source\<close>

text \<open>\<^verbatim>\<open>^(GET|POST|PUT|DELETE|PATCH|HEAD|OPTIONS)\s+\<close>\<close>

definition method_re :: regex where
  "method_re =
     Seq Bol (Seq (Group 1 (Alt (Lit ''GET'') (Alt (Lit ''POST'') (Alt (Lit ''PUT'')
       (Alt (Lit ''DELETE'') (Alt (Lit ''PATCH'') (Alt (Lit ''HEAD'') (Lit ''OPTIONS''))))))))
       (plus (OneOf [Space])))"

text \<open>\<^verbatim>\<open>(https?://[^\s\?&#]+|www\.[^\s\?&#]+)\<close>\<close>

definition url_char :: cls where
  "url_char = NoneOf [Space, Ch CHR ''?'', Ch CHR ''&'', Ch CHR ''#'']"

definition url_re :: regex where
  "url_re =
     Group 1 (Alt (Seq (Lit ''http'') (Seq (Opt (Lit ''s'')) (Seq (Lit ''://'') (plus url_char))))
                  (Seq (Lit ''www.'') (plus url_char)))"

text \<open>\<^verbatim>\<open>(?:api[_-]?key|token)[\s:]+([\w-]+)\<close>\<close>

definition api_key_re :: regex where
  "api_key_re =
     Seq (Alt (Seq (Lit ''api'') (Seq (Opt (Atom (OneOf [Ch CHR ''_'', Ch CHR ''-'']))) (Lit ''key'')))
              (Lit ''token''))
         (Seq (plus (OneOf [Space, Ch CHR '':'']))
              (Group 1 (plus (OneOf [Word, Ch CHR ''-'']))))"

text \<open>\<^verbatim>\<open>user(?:name)?[\s:]+([^\s,;]+)[\s,;]+pass(?:word)?[\s:]+([^\s,;]+)\<close>\<close>

definition value_char :: cls where
  "value_char = NoneOf [Space, Ch CHR '','', Ch CHR '';'']"

definition basic_auth_re :: regex where
  "basic_auth_re =
     Seq (Lit ''user'') (Seq (Opt (Lit ''name'')) (Seq (plus (OneOf [Space, Ch CHR '':'']))
       (Seq (Group 1 (plus value_char)) (Seq (plus (OneOf [Space, Ch CHR '','', Ch CHR '';'']))
         (Seq (Lit ''pass'') (Seq (Opt (Lit ''word'')) (Seq (plus (OneOf [Space, Ch CHR '':'']))
           (Group 2 (plus value_char)))))))))"

text \<open>\<^verbatim>\<open>\{.*\}\<close> with \<^verbatim>\<open>re.DOTALL\<close>, and \<^verbatim>\<open>(\w+)=([^\s,;]+)\<close>\<close>

definition json_re :: regex where
  "json_re = Seq (Lit ''{'') (Seq (Star AnyChar) (Lit ''}''))"

definition form_re :: regex where
  "form_re = Seq (Group 1 (plus (OneOf [Word]))) (Seq (Lit ''='') (Group 2 (plus value_char)))"

subsection \<open>\<^verbatim>\<open>_parse_natural_language_request\<close>\<close>

text \<open>
  The parsed request is the dictionary of the source; its key \<^verbatim>\<open>json\<close> is present only
  after a successful \<^verbatim>\<open>json.loads\<close>.  The two library functions \<^verbatim>\<open>urllib.parse.parse_qsl\<close>
  and \<^verbatim>\<open>json.loads\<close> are parameters (\<open>None\<close> stands for \<^verbatim>\<open>JSONDecodeError\<close>); the unused
  argument \<^verbatim>\<open>context\<close> is left out.
\<close>

record parsed_request =
  p_method :: string
  p_url :: string
  p_headers :: "(string \<times> string) list"
  p_params :: "(string \<times> string) list"
  p_data :: "(string \<times> string) list option"
  p_auth :: "(string \<times> string) list option"
  p_timeout :: int
  p_verify_ssl :: bool
  p_json :: "json option"

text \<open>The method found at the start of the text, and the text that is left after it.\<close>

definition extract_method :: "string \<Rightarrow> string \<times> string" where
  "extract_method request =
     (case re_search True method_re request of
        None \<Rightarrow> (''GET'', request)
      | Some method_match \<Rightarrow>
          (upper_str (group method_match 1), strip (drop (m_end method_match) request)))"

definition parse_natural_language_request ::
  "(string \<Rightarrow> (string \<times> string) list) \<Rightarrow> (string \<Rightarrow> json option) \<Rightarrow> string \<Rightarrow>
     exn + parsed_request" where
  "parse_natural_language_request parse_qsl json_loads request0 =
     (case extract_method request0 of (method, request) \<Rightarrow>
        (case re_search True url_re request of
           None \<Rightarrow> Inl (Exn ValueError ''Could not find a valid URL in the request'')
         | Some url_match \<Rightarrow>
            (let url0 = group url_match 1;
                 url1 = (if startswith url0 ''http://'' \<or> startswith url0 ''https://'' then url0
                         else ''https://'' @ url0);
                 (url, params) =
                   (if CHR ''?'' \<in> set url1 then
                      (case split_once CHR ''?'' url1 of (before, after) \<Rightarrow>
                         (before, dict_update [] (parse_qsl (fst (split_once CHR ''#'' after)))))
                    else (url1, []));
                 remaining_text = strip (drop (m_end url_match) request);
                 auth1 = (case re_search True api_key_re remaining_text of
                            None \<Rightarrow> None
                          | Some api_key_match \<Rightarrow>
                              Some [(''type'', ''api_key''), (''key'', ''Authorization''),
                                    (''value'', ''Bearer '' @ group api_key_match 1)]);
                 auth2 = (case re_search True basic_auth_re remaining_text of
                            None \<Rightarrow> auth1
                          | Some auth_match \<Rightarrow>
                              Some [(''type'', ''basic''), (''username'', group auth_match 1),
                                    (''password'', group auth_match 2)]);
                 json_body = (case re_search False json_re remaining_text of
                                None \<Rightarrow> None
                              | Some json_match \<Rightarrow>
                                  json_loads (take (m_end json_match - m_start json_match)
                                                (drop (m_start json_match) remaining_text)));
                 form_match = map (\<lambda>m. (group m 1, group m 2)) (re_findall False form_re remaining_text);
                 form_data = (if form_match \<noteq> [] \<and> json_body = None
                              then Some (dict_update [] form_match) else None)
             in Inr \<lparr>p_method = method, p_url = url, p_headers = [], p_params = params,
                     p_data = form_data, p_auth = auth2, p_timeout = 30, p_verify_ssl = True,
                     p_json = json_body\<rparr>)))"

text \<open>The text the auth patterns are searched in, for a request in which a URL is found.\<close>

definition remaining_text_of :: "string \<Rightarrow> string" where
  "remaining_text_of request0 =
     (case re_search True url_re (snd (extract_method request0)) of
        None \<Rightarrow> []
      | Some url_match \<Rightarrow> strip (drop (m_end url_match) (snd (extract_method request0))))"

section \<open>The HTTP executor (agents/tools/api_caller.py)\<close>

text \<open>
  The aiohttp session is a parameter: a function from the request that \<^verbatim>\<open>call\<close> hands to
  \<^verbatim>\<open>session.request\<close> to the exception it raises or the response it yields.  Reading the
  body of a response can raise as well.  \<^verbatim>\<open>base64.b64encode\<close> is a parameter too.
\<close>

datatype body = NoBody | JsonBody json | DataBody json

record http_request =
  rq_method :: string
  rq_url :: string
  rq_headers :: "(string \<times> string) list"
  rq_params :: "(string \<times> string) list option"
  rq_timeout :: int
  rq_allow_redirects :: bool
  rq_verify_ssl :: bool
  rq_body :: body

record http_response =
  rs_status :: int
  rs_headers :: "(string \<times> string) list"
  rs_url :: string
  rs_json :: "exn + json"
  rs_text :: "exn + string"

type_synonym transport = "http_request \<Rightarrow> exn + http_response"

text \<open>
  The dictionary \<^verbatim>\<open>call\<close> returns; a key that a branch does not set is \<open>None\<close>.
\<close>

record envelope =
  env_status :: "int option"
  env_headers :: "(string \<times> string) list option"
  env_url :: "string option"
  env_content_type :: "string option"
  env_is_success :: bool
  env_data :: "json option"
  env_error :: "string option"

record call_args =
  arg_url :: string
  arg_method :: string
  arg_headers :: "(string \<times> string) list option"
  arg_params :: "(string \<times> string) list option"
  arg_data :: "json option"
  arg_json_data :: "json option"
  arg_auth :: "(string \<times> string) list option"
  arg_timeout :: int
  arg_allow_redirects :: bool
  arg_verify_ssl :: bool

definition default_headers :: "(string \<times> string) list" where
  "default_headers =
     [(''User-Agent'', ''MultiAgent-APICaller/1.0''), (''Accept'', ''application/json''),
      (''Content-Type'', ''application/json'')]"

definition http_methods :: "string list" where
  "http_methods = [''GET'', ''POST'', ''PUT'', ''DELETE'', ''PATCH'', ''HEAD'', ''OPTIONS'']"

definition dict_get :: "(string \<times> string) list \<Rightarrow> string \<Rightarrow> string \<Rightarrow> string" where
  "dict_get d k dflt = (case map_of d k of None \<Rightarrow> dflt | Some v \<Rightarrow> v)"

text \<open>
  The headers of a response are looked up without regard to case, first entry first, and
  \<^verbatim>\<open>dict(response.headers)\<close> keeps the last value of a repeated name.
\<close>

definition header_get :: "(string \<times> string) list \<Rightarrow> string \<Rightarrow> string \<Rightarrow> string" where
  "header_get d k dflt =
     (case find (\<lambda>(k', v). lower_str k' = lower_str k) d of None \<Rightarrow> dflt | Some (k', v) \<Rightarrow> v)"

definition prepare_auth_headers ::
  "(string \<Rightarrow> string) \<Rightarrow> (string \<times> string) list \<Rightarrow> (string \<times> string) list" where
  "prepare_auth_headers b64encode auth_config =
     (let auth_type = lower_str (dict_get auth_config ''type'' [])
      in if auth_type = ''basic'' \<and> map_of auth_config ''username'' \<noteq> None
            \<and> map_of auth_config ''password'' \<noteq> None
         then [(''Authorization'', ''Basic '' @ b64encode
                 (dict_get auth_config ''username'' [] @ '':'' @ dict_get auth_config ''password'' []))]
         else if auth_type = ''bearer'' \<and> map_of auth_config ''token'' \<noteq> None
         then [(''Authorization'', ''Bearer '' @ dict_get auth_config ''token'' [])]
         else if auth_type = ''api_key'' \<and> map_of auth_config ''key'' \<noteq> None
            \<and> map_of auth_config ''value'' \<noteq> None
         then [(dict_get auth_config ''key'' [], dict_get auth_config ''value'' [])]
         else if auth_type = ''oauth2'' \<and> map_of auth_config ''token'' \<noteq> None
         then [(''Authorization'', ''Bearer '' @ dict_get auth_config ''token'' [])]
         else [])"

fun is_dict_or_list :: "json \<Rightarrow> bool" where
  "is_dict_or_list (JObj d) = True"
| "is_dict_or_list (JArr l) = True"
| "is_dict_or_list j = False"

text \<open>The part of \<^verbatim>\<open>call\<close> before \<^verbatim>\<open>session.request\<close>: it raises on an unknown method.\<close>

definition build_request :: "(string \<Rightarrow> string) \<Rightarrow> call_args \<Rightarrow> exn + http_request" where
  "build_request b64encode args =
     (if upper_str (arg_method args) \<notin> set http_methods
      then Inl (Exn ValueError (quoted (upper_str (arg_method args)) @ '' is not a valid HTTPMethod''))
      else
        (let h1 = (case arg_headers args of
                     None \<Rightarrow> default_headers
                   | Some h \<Rightarrow> dict_update default_headers h);
             request_headers = (case arg_auth args of
                     None \<Rightarrow> h1
                   | Some a \<Rightarrow> if a = [] then h1
                              else dict_update h1 (prepare_auth_headers b64encode a));
             request_body = (case arg_data args of
                     Some d \<Rightarrow>
                       if is_dict_or_list d
                          \<and> contains (dict_get request_headers ''Content-Type'' []) ''application/json''
                       then JsonBody d else DataBody d
                   | None \<Rightarrow> (case arg_json_data args of Some j \<Rightarrow> JsonBody j | None \<Rightarrow> NoBody))
         in Inr \<lparr>rq_method = upper_str (arg_method args), rq_url = arg_url args,
                 rq_headers = request_headers, rq_params = arg_params args,
                 rq_timeout = arg_timeout args, rq_allow_redirects = arg_allow_redirects args,
                 rq_verify_ssl = arg_verify_ssl args, rq_body = request_body\<rparr>))"

text \<open>The body of the \<^verbatim>\<open>async with\<close>: it raises when the text of the response cannot be read.\<close>

definition read_response :: "http_response \<Rightarrow> exn + envelope" where
  "read_response response =
     (let content_type = lower_str (header_get (rs_headers response) ''Content-Type'' []);
          is_json = contains content_type ''application/json'';
          response_data = \<lparr>env_status = Some (rs_status response),
             env_headers = Some (dict_update [] (rs_headers response)),
             env_url = Some (rs_url response),
             env_content_type = Some content_type,
             env_is_success = (200 \<le> rs_status response \<and> rs_status response < 300),
             env_data = None, env_error = None\<rparr>;
          as_text = (case rs_text response of
                       Inl e \<Rightarrow> Inl e
                     | Inr t \<Rightarrow> Inr (response_data\<lparr>env_data := Some (JStr t)\<rparr>))
      in if is_json then
           (case rs_json response of
              Inr j \<Rightarrow> Inr (response_data\<lparr>env_data := Some j\<rparr>)
            | Inl e \<Rightarrow> as_text)
         else as_text)"

text \<open>The two \<^verbatim>\<open>except\<close> branches of \<^verbatim>\<open>call\<close>.\<close>

definition error_envelope :: "exn \<Rightarrow> envelope" where
  "error_envelope e =
     \<lparr>env_status = Some 0, env_headers = None, env_url = None, env_content_type = None,
      env_is_success = False, env_data = None,
      env_error = Some ((if class_of e = ClientError then ''API request failed: ''
                         else ''Unexpected error: '') @ str_exn e)\<rparr>"

text \<open>
  \<^verbatim>\<open>APICaller.call\<close>.  The second component lists the requests handed to the session.
\<close>

definition call ::
  "(string \<Rightarrow> string) \<Rightarrow> transport \<Rightarrow> call_args \<Rightarrow> envelope \<times> http_request list" where
  "call b64encode session_request args =
     (case build_request b64encode args of
        Inl e \<Rightarrow> (error_envelope e, [])
      | Inr rq \<Rightarrow>
         (case session_request rq of
            Inl e \<Rightarrow> (error_envelope e, [rq])
          | Inr response \<Rightarrow>
             (case read_response response of
                Inl e \<Rightarrow> (error_envelope e, [rq])
              | Inr response_data \<Rightarrow> (response_data, [rq]))))"

definition form_json :: "(string \<times> string) list \<Rightarrow> json" where
  "form_json d = JObj (map (\<lambda>(k, v). (k, JStr v)) d)"

definition call_from_natural_language ::
  "(string \<Rightarrow> (string \<times> string) list) \<Rightarrow> (string \<Rightarrow> json option) \<Rightarrow> (string \<Rightarrow> string) \<Rightarrow>
     transport \<Rightarrow> string \<Rightarrow> envelope \<times> http_request list" where
  "call_from_natural_language parse_qsl json_loads b64encode session_request request =
     (case parse_natural_language_request parse_qsl json_loads request of
        Inl e \<Rightarrow>
          (\<lparr>env_status = None, env_headers = None, env_url = None, env_content_type = None,
            env_is_success = False, env_data = None,
            env_error = Some (''Failed to process request: '' @ str_exn e)\<rparr>, [])
      | Inr parsed \<Rightarrow>
          call b64encode session_request
            \<lparr>arg_url = p_url parsed, arg_method = p_method parsed,
             arg_headers = Some (p_headers parsed), arg_params = Some (p_params parsed),
             arg_data = map_option form_json (p_data parsed), arg_json_data = p_json parsed,
             arg_auth = p_auth parsed, arg_timeout = p_timeout parsed,
             arg_allow_redirects = True, arg_verify_ssl = p_verify_ssl parsed\<rparr>)"

section \<open>The call endpoint (api/routes.py)\<close>

text \<open>
  The handler calls \<^verbatim>\<open>caller.call\<close> with keyword arguments.  Python binds a keyword to the
  parameter of that name and raises \<^verbatim>\<open>TypeError\<close> when there is none; a parameter that gets
  no argument takes its default, and \<^verbatim>\<open>url\<close> has none.
\<close>

datatype kwarg =
  KStr string | KDict "(string \<times> string) list" | KBody "json option"
  | KAuth "(string \<times> string) list option" | KInt int | KBool bool

definition call_parameters :: "string list" where
  "call_parameters = [''url'', ''method'', ''headers'', ''params'', ''data'', ''json_data'',
                      ''auth'', ''timeout'', ''allow_redirects'', ''verify_ssl'']"

definition bind_call :: "(string \<times> kwarg) list \<Rightarrow> exn + call_args" where
  "bind_call kwargs =
     (case filter (\<lambda>k. k \<notin> set call_parameters) (map fst kwargs) of
        k # ks \<Rightarrow> Inl (Exn TypeError
                  (''APICaller.call() got an unexpected keyword argument '' @ quoted k))
      | [] \<Rightarrow>
         (case map_of kwargs ''url'' of
            None \<Rightarrow> Inl (Exn TypeError
                     (''APICaller.call() missing 1 required positional argument: '' @ quoted ''url''))
          | Some u \<Rightarrow>
             Inr \<lparr>arg_url = (case u of KStr s \<Rightarrow> s | other \<Rightarrow> []),
                  arg_method = (case map_of kwargs ''method'' of Some (KStr s) \<Rightarrow> s | other \<Rightarrow> ''GET''),
                  arg_headers = (case map_of kwargs ''headers'' of Some (KDict d) \<Rightarrow> Some d | other \<Rightarrow> None),
                  arg_params = (case map_of kwargs ''params'' of Some (KDict d) \<Rightarrow> Some d | other \<Rightarrow> None),
                  arg_data = (case map_of kwargs ''data'' of Some (KBody b) \<Rightarrow> b | other \<Rightarrow> None),
                  arg_json_data = (case map_of kwargs ''json_data'' of Some (KBody b) \<Rightarrow> b | other \<Rightarrow> None),
                  arg_auth = (case map_of kwargs ''auth'' of Some (KAuth a) \<Rightarrow> a | other \<Rightarrow> None),
                  arg_timeout = (case map_of kwargs ''timeout'' of Some (KInt n) \<Rightarrow> n | other \<Rightarrow> 30),
                  arg_allow_redirects =
                    (case map_of kwargs ''allow_redirects'' of Some (KBool b) \<Rightarrow> b | other \<Rightarrow> True),
                  arg_verify_ssl =
                    (case map_of kwargs ''verify_ssl'' of Some (KBool b) \<Rightarrow> b | other \<Rightarrow> True)\<rparr>))"

record api_call_request =
  acr_url :: string
  acr_method :: string
  acr_headers :: "(string \<times> string) list option"
  acr_params :: "(string \<times> string) list option"
  acr_body :: "json option"
  acr_auth :: "(string \<times> string) list option"

definition call_api ::
  "(string \<Rightarrow> string) \<Rightarrow> transport \<Rightarrow> api_call_request \<Rightarrow>
     (http_error + envelope) \<times> http_request list" where
  "call_api b64encode session_request request =
     (case bind_call
        [(''url'', KStr (acr_url request)),
         (''method'', KStr (acr_method request)),
         (''headers'', KDict (case acr_headers request of None \<Rightarrow> [] | Some h \<Rightarrow> h)),
         (''params'', KDict (case acr_params request of None \<Rightarrow> [] | Some p \<Rightarrow> p)),
         (''body'', KBody (acr_body request)),
         (''auth'', KAuth (acr_auth request))] of
        Inl e \<Rightarrow> (Inl (HTTPException 500 (str_exn e)), [])
      | Inr args \<Rightarrow>
          (case call b64encode session_request args of
             (response, sent) \<Rightarrow> (Inr response, sent)))"

section \<open>Patterns without an anchor\<close>

fun bol_free :: "regex \<Rightarrow> bool" where
  "bol_free Bol = False"
| "bol_free (Seq a b) = (bol_free a \<and> bol_free b)"
| "bol_free (Alt a b) = (bol_free a \<and> bol_free b)"
| "bol_free (Opt a) = bol_free a"
| "bol_free (Group n a) = bol_free a"
| "bol_free r = True"

text \<open>The characters a pattern can take into a match.\<close>

fun consumes :: "bool \<Rightarrow> regex \<Rightarrow> char \<Rightarrow> bool" where
  "consumes ic Bol x = False"
| "consumes ic (Lit l) x = list_ex (\<lambda>c. atom_match ic (Ch c) x) l"
| "consumes ic (Atom c) x = cls_match ic c x"
| "consumes ic (Seq a b) x = (consumes ic a x \<or> consumes ic b x)"
| "consumes ic (Alt a b) x = (consumes ic a x \<or> consumes ic b x)"
| "consumes ic (Opt a) x = consumes ic a x"
| "consumes ic (Star c) x = cls_match ic c x"
| "consumes ic (Group n a) x = consumes ic a x"

section \<open>Example inputs\<close>

definition empty_store :: session_manager where
  "empty_store = \<lparr>redis = Some \<lparr>store = Map.empty, faults = []\<rparr>,
                   session_expire_seconds = 86400, logged = []\<rparr>"

definition user_says :: "string \<Rightarrow> message" where
  "user_says text =
     \<lparr>role = User, content = text, name = None, tool_calls = None, tool_call_id = None\<rparr>"

definition expired_store :: session_manager where
  "expired_store =
     \<lparr>redis = Some \<lparr>store = [''session:s1'' \<mapsto>
              (\<lparr>created_at = Some 0, updated_at = Some 0, data = Some [],
                chat_history = Some [user_says ''hi'']\<rparr>, 100)],
            faults = []\<rparr>,
      session_expire_seconds = 100, logged = []\<rparr>"

definition failing_store :: session_manager where
  "failing_store =
     \<lparr>redis = Some \<lparr>store = Map.empty,
            faults = [None, None, Some (Exn RedisError ''connection lost'')]\<rparr>,
      session_expire_seconds = 86400, logged = []\<rparr>"

definition greeter :: agent_executor where
  "greeter input context = Inr \<lparr>result_output = Some ''hello'', intermediate_steps = None\<rparr>"


definition example_call :: call_args where
  "example_call =
     \<lparr>arg_url = ''https://example.com'', arg_method = ''GET'', arg_headers = None,
      arg_params = None, arg_data = None, arg_json_data = None, arg_auth = None,
      arg_timeout = 30, arg_allow_redirects = True, arg_verify_ssl = True\<rparr>"

definition example_http_request :: http_request where
  "example_http_request =
     \<lparr>rq_method = ''GET'', rq_url = ''https://example.com'',
      rq_headers = [(''User-Agent'', ''MultiAgent-APICaller/1.0''),
                    (''Accept'', ''application/json''), (''Content-Type'', ''application/json'')],
      rq_params = None, rq_timeout = 30, rq_allow_redirects = True, rq_verify_ssl = True,
      rq_body = NoBody\<rparr>"

section \<open>Properties of the session store\<close>

subsection \<open>Lists\<close>

lemma last_n_append_last_n: "last_n n (last_n n xs @ ys) = last_n n (xs @ ys)"
proof (cases "length xs \<le> n")
  case True
  then show ?thesis by (simp add: last_n_def)
next
  case False
  then have "length ys + (length xs - n) = length xs + length ys - n" by simp
  with False show ?thesis
    by (simp add: last_n_def)
qed

lemma length_last_n: "length (last_n n xs) \<le> n"
  by (simp add: last_n_def)

subsection \<open>Redis commands that go through\<close>

lemma next_fault_none: "faults r = [] \<Longrightarrow> next_fault r = (None, r)"
  by (simp add: next_fault_def)

lemma redis_get_ok: "faults r = [] \<Longrightarrow> redis_get r now k = (Inr (visible r now k), r)"
  by (simp add: redis_get_def next_fault_none)

lemma redis_set_ok:
  "faults r = [] \<Longrightarrow> 0 < ex \<Longrightarrow>
   redis_set r now k v ex = (Inr (), r\<lparr>store := (store r)(k \<mapsto> (v, now + ex))\<rparr>)"
  by (simp add: redis_set_def next_fault_none)

lemma get_session_ok:
  assumes "redis sm = Some r" "faults r = []" "0 < session_expire_seconds sm" "session_id \<noteq> []"
  shows "get_session sm now session_id =
     (case visible r now (session_key session_id) of
        None \<Rightarrow> (None, sm)
      | Some s \<Rightarrow>
          (Some (s\<lparr>updated_at := Some now\<rparr>),
           sm\<lparr>redis := Some (r\<lparr>store := (store r)(session_key session_id \<mapsto>
                (s\<lparr>updated_at := Some now\<rparr>, now + session_expire_seconds sm))\<rparr>)\<rparr>))"
proof -
  have same: "sm\<lparr>redis := Some r\<rparr> = sm" using assms(1) by simp
  show ?thesis
    using assms
    by (simp add: get_session_def redis_get_ok redis_set_ok same Let_def split: option.split)
qed

lemma chat_history_appended:
  "chat_history (appended found now messages) =
     Some (last_n max_history (history_of found @ messages))"
  by (simp add: appended_def history_of_def split: option.split)

lemma update_chat_history_ok:
  assumes "redis sm = Some r" "faults r = []" "0 < session_expire_seconds sm"
    "session_id \<noteq> []" "messages \<noteq> []"
  shows "update_chat_history sm now session_id messages =
           (True, sm\<lparr>redis := Some (r\<lparr>store := (store r)(session_key session_id \<mapsto>
                (appended (visible r now (session_key session_id)) now messages,
                 now + session_expire_seconds sm))\<rparr>)\<rparr>)"
proof (cases "visible r now (session_key session_id)")
  case None
  have same: "sm\<lparr>redis := Some r\<rparr> = sm" using assms(1) by simp
  show ?thesis
    using assms None
    by (simp add: update_chat_history_def get_session_ok redis_set_ok appended_def same)
next
  case (Some s)
  show ?thesis
    using assms Some
    by (simp add: update_chat_history_def get_session_ok redis_set_ok appended_def history_of_def
          Let_def split: option.split)
qed

lemma history_at_after_update:
  assumes "store_ok sm" "session_id \<noteq> []" "messages \<noteq> []"
  shows "\<exists>sm'. update_chat_history sm now session_id messages = (True, sm') \<and> store_ok sm'
     \<and> session_expire_seconds sm' = session_expire_seconds sm
     \<and> (\<forall>t. t < now + session_expire_seconds sm \<longrightarrow>
          history_at sm' t session_id = last_n max_history (history_at sm now session_id @ messages))"
proof -
  from assms(1) obtain r where r: "redis sm = Some r" "faults r = []" "0 < session_expire_seconds sm"
    by (auto simp: store_ok_def split: option.splits)
  note upd = update_chat_history_ok [OF r assms(2,3), of now]
  have "history_of (Some (appended (visible r now (session_key session_id)) now messages)) =
      last_n max_history (history_of (visible r now (session_key session_id)) @ messages)"
    by (simp add: history_of_def chat_history_appended)
  then show ?thesis
    using r upd by (simp add: store_ok_def history_at_def visible_def [of "_\<lparr>store := _\<rparr>"])
qed

lemma run_updates_history:
  assumes "store_ok sm" "session_id \<noteq> []" "\<forall>c \<in> set calls. snd c \<noteq> []"
    "in_time (session_expire_seconds sm) t calls"
  shows "\<exists>sm'. run_updates sm session_id calls = (replicate (length calls) True, sm')
     \<and> (calls \<noteq> [] \<longrightarrow> history_at sm' (last_time t calls) session_id =
           last_n max_history (history_at sm (fst (hd calls)) session_id @ concat (map snd calls)))"
  using assms
proof (induction calls arbitrary: sm t)
  case Nil
  then show ?case by simp
next
  case (Cons c calls)
  obtain now messages where c: "c = (now, messages)" by (cases c)
  from Cons.prems c have m: "messages \<noteq> []" by simp
  from history_at_after_update [OF Cons.prems(1,2) m, of now]
  obtain sm1 where sm1: "update_chat_history sm now session_id messages = (True, sm1)"
      "store_ok sm1" "session_expire_seconds sm1 = session_expire_seconds sm"
      "\<forall>t. t < now + session_expire_seconds sm \<longrightarrow>
          history_at sm1 t session_id = last_n max_history (history_at sm now session_id @ messages)"
    by blast
  from Cons.prems c sm1(3) have rest: "\<forall>c \<in> set calls. snd c \<noteq> []"
      "in_time (session_expire_seconds sm1) now calls" by simp_all
  from Cons.IH [OF sm1(2) Cons.prems(2) rest]
  obtain sm2 where sm2: "run_updates sm1 session_id calls = (replicate (length calls) True, sm2)"
     "calls \<noteq> [] \<longrightarrow> history_at sm2 (last_time now calls) session_id =
           last_n max_history (history_at sm1 (fst (hd calls)) session_id @ concat (map snd calls))"
    by blast
  show ?case
  proof (cases calls)
    case Nil
    from Cons.prems(1) have "0 < session_expire_seconds sm" by (simp add: store_ok_def)
    with Nil c sm1 show ?thesis by simp
  next
    case (Cons d ds)
    obtain now' m' where d: "d = (now', m')" by (cases d)
    from rest(2) Cons d sm1(3) have "now' < now + session_expire_seconds sm" by simp
    with sm1(4) have "history_at sm1 now' session_id =
       last_n max_history (history_at sm now session_id @ messages)" by blast
    with sm2 Cons d c sm1(1) show ?thesis
      by (simp add: last_n_append_last_n)
  qed
qed

lemma in_time_take: "in_time ttl t calls \<Longrightarrow> in_time ttl t (take k calls)"
proof (induction calls arbitrary: t k)
  case Nil
  then show ?case by simp
next
  case (Cons c calls)
  obtain now m where "c = (now, m)" by (cases c)
  with Cons show ?case by (cases k) simp_all
qed

text \<open>
  Claim C1.  Take a session id (a UUID, so not the empty string), a working store and a
  session without history, and run any sequence of \<^verbatim>\<open>update_chat_history\<close> calls with
  non-empty message lists, none arriving after the session has expired.  After each call
  (the \<open>k\<close>-th, for every \<open>k\<close>) the call has returned \<^verbatim>\<open>True\<close>, the stored history has at
  most 50 entries, and it is the last 50 of all messages appended so far, in the order
  in which they were appended.
\<close>

theorem append_history_keeps_last_50:
  assumes "store_ok sm" and "session_id \<noteq> []"
    and "\<forall>c \<in> set calls. snd c \<noteq> []"
    and "calls \<noteq> []"
    and "history_at sm (fst (hd calls)) session_id = []"
    and "in_time (session_expire_seconds sm) (fst (hd calls)) calls"
    and "0 < k" and "k \<le> length calls"
  shows "fst (run_updates sm session_id (take k calls)) = replicate k True
    \<and> length (history_at (snd (run_updates sm session_id (take k calls)))
                (fst (calls ! (k - 1))) session_id) \<le> 50
    \<and> history_at (snd (run_updates sm session_id (take k calls)))
         (fst (calls ! (k - 1))) session_id
       = last_n 50 (concat (map snd (take k calls)))"
proof -
  let ?cs = "take k calls"
  let ?t = "fst (hd calls)"
  from assms have ne: "?cs \<noteq> []" by (cases k; cases calls) simp_all
  from assms have hd: "hd ?cs = hd calls" by (cases k; cases calls) simp_all
  have nonempty: "\<forall>c \<in> set ?cs. snd c \<noteq> []"
    using assms(3) by (meson in_set_takeD)
  have time: "in_time (session_expire_seconds sm) ?t ?cs"
    using assms(6) by (rule in_time_take)
  have lt: "last_time t0 ?cs = fst (calls ! (k - 1))" for t0
    using assms(7,8)
  proof (induction calls arbitrary: k t0)
    case Nil
    then show ?case by simp
  next
    case (Cons c cs)
    obtain now m where c: "c = (now, m)" by (cases c)
    show ?case
    proof (cases k)
      case 0
      with Cons.prems show ?thesis by simp
    next
      case (Suc j)
      show ?thesis
      proof (cases j)
        case 0
        with Suc c show ?thesis by simp
      next
        case (Suc i)
        with Cons.prems \<open>k = Suc j\<close> have "last_time now (take j cs) = fst (cs ! (j - 1))"
          by (intro Cons.IH) simp_all
        with Suc \<open>k = Suc j\<close> c show ?thesis by simp
      qed
    qed
  qed
  from run_updates_history [OF assms(1,2) nonempty time]
  obtain sm' where sm': "run_updates sm session_id ?cs = (replicate (length ?cs) True, sm')"
    "history_at sm' (last_time ?t ?cs) session_id =
       last_n max_history (history_at sm (fst (hd ?cs)) session_id @ concat (map snd ?cs))"
    using ne by blast
  from assms(8) have len: "length ?cs = k" by simp
  have h: "history_at sm' (fst (calls ! (k - 1))) session_id = last_n 50 (concat (map snd ?cs))"
    using sm'(2) assms(5) by (simp add: lt hd max_history_def)
  show ?thesis
    using sm'(1) h len by (simp add: length_last_n)
qed

text \<open>
  Two calls of 30 messages each on an empty store: the first ten messages are dropped.
\<close>

theorem append_history_keeps_last_50_witness:
  "store_ok empty_store \<and>
   history_at empty_store 0 ''s1'' = [] \<and>
   in_time (session_expire_seconds empty_store) 0
     [(0, replicate 30 (user_says ''a'')), (100, replicate 30 (user_says ''b''))] \<and>
   fst (run_updates empty_store ''s1''
     [(0, replicate 30 (user_says ''a'')), (100, replicate 30 (user_says ''b''))]) = [True, True] \<and>
   history_at (snd (run_updates empty_store ''s1''
       [(0, replicate 30 (user_says ''a'')), (100, replicate 30 (user_says ''b''))])) 100 ''s1''
     = replicate 20 (user_says ''a'') @ replicate 30 (user_says ''b'')"
proof -
  let ?calls = "[(0::int, replicate 30 (user_says ''a'')), (100, replicate 30 (user_says ''b''))]"
  have h1: "store_ok empty_store" by (simp add: store_ok_def empty_store_def)
  have h2: "''s1'' \<noteq> []" by simp
  have h3: "\<forall>c \<in> set ?calls. snd c \<noteq> []" by simp
  have h4: "?calls \<noteq> []" by simp
  have h5: "history_at empty_store (fst (hd ?calls)) ''s1'' = []"
    by (simp add: history_at_def empty_store_def visible_def history_of_def)
  have h6: "in_time (session_expire_seconds empty_store) (fst (hd ?calls)) ?calls"
    by (simp add: empty_store_def)
  have h7: "0 < (2::nat)" and h8: "2 \<le> length ?calls" by simp_all
  have l: "last_n 50 (replicate 30 (user_says ''a'') @ replicate 30 (user_says ''b''))
      = replicate 20 (user_says ''a'') @ replicate 30 (user_says ''b'')"
    by (simp add: last_n_def)
  from append_history_keeps_last_50 [OF h1 h2 h3 h4 h5 h6 h7 h8] h1 h5 h6 l
  show ?thesis by (simp add: numeral_2_eq_2)
qed

subsection \<open>Which operations remove keys\<close>

lemma store_next_fault: "next_fault r = (f, r') \<Longrightarrow> store r' = store r"
  by (auto simp: next_fault_def split: list.splits)

lemma dom_redis_get: "redis_get r now k = (res, r') \<Longrightarrow> store r' = store r"
  by (auto simp: redis_get_def split: prod.splits option.splits dest: store_next_fault)

lemma dom_redis_set:
  "redis_set r now k v ex = (res, r') \<Longrightarrow> dom (store r) \<subseteq> dom (store r')"
  by (auto simp: redis_set_def split: prod.splits option.splits if_splits dest: store_next_fault)

lemma stored_keys_log_error: "stored_keys (log_error sm line) = stored_keys sm"
  by (simp add: stored_keys_def log_error_def)

lemma stored_keys_redis: "stored_keys (sm\<lparr>redis := Some r\<rparr>) = dom (store r)"
  by (simp add: stored_keys_def)

lemmas stored_keys_simps = stored_keys_log_error stored_keys_redis

lemma keys_create_session:
  "stored_keys sm \<subseteq> stored_keys (snd (create_session sm now i d))"
proof (cases "redis sm")
  case None
  then show ?thesis by (simp add: create_session_def)
next
  case (Some r)
  then have k: "stored_keys sm = dom (store r)" by (simp add: stored_keys_def)
  let ?v = "\<lparr>created_at = Some now, updated_at = Some now,
            data = Some (case d of None \<Rightarrow> [] | Some d \<Rightarrow> d), chat_history = Some []\<rparr>"
  obtain res r1 where s: "redis_set r now (session_key i) ?v (session_expire_seconds sm) = (res, r1)"
    by fastforce
  from dom_redis_set [OF s] have "dom (store r) \<subseteq> dom (store r1)" .
  with Some s k show ?thesis
    by (cases res) (simp_all add: create_session_def stored_keys_simps)
qed

lemma get_session_no_store:
  "i = [] \<or> redis sm = None \<Longrightarrow> get_session sm now i = (None, sm)"
  by (cases "i = []") (simp_all add: get_session_def)

lemma keys_get_session:
  "get_session sm now i = (found, sm1) \<Longrightarrow> stored_keys sm \<subseteq> stored_keys sm1"
proof (cases "i = [] \<or> redis sm = None")
  case True
  assume "get_session sm now i = (found, sm1)"
  with get_session_no_store [OF True, of now] show ?thesis by simp
next
  case False
  assume gs: "get_session sm now i = (found, sm1)"
  from False obtain r where r: "redis sm = Some r" by auto
  then have k: "stored_keys sm = dom (store r)" by (simp add: stored_keys_def)
  from False have ne: "i \<noteq> []" by simp
  obtain res r1 where g: "redis_get r now (session_key i) = (res, r1)" by fastforce
  from dom_redis_get [OF g] have d1: "store r1 = store r" .
  show ?thesis
  proof (cases res)
    case (Inl e)
    with ne r g gs have "sm1 = log_error (sm\<lparr>redis := Some r1\<rparr>)
        (''Error getting session from Redis: '' @ str_exn e)"
      by (simp add: get_session_def)
    with d1 k show ?thesis by (simp add: stored_keys_simps)
  next
    case (Inr fnd)
    show ?thesis
    proof (cases fnd)
      case None
      with ne r g gs Inr have "sm1 = sm\<lparr>redis := Some r1\<rparr>"
        by (simp add: get_session_def)
      with d1 k show ?thesis by (simp add: stored_keys_simps)
    next
      case (Some s)
      obtain res2 r2 where s2: "redis_set r1 now (session_key i) (s\<lparr>updated_at := Some now\<rparr>)
           (session_expire_seconds sm) = (res2, r2)" by fastforce
      from dom_redis_set [OF s2] d1 have sub: "dom (store r) \<subseteq> dom (store r2)" by simp
      have "stored_keys sm1 = dom (store r2)"
      proof (cases res2)
        case (Inl e)
        with ne r g gs Inr Some s2 have "sm1 = log_error (sm\<lparr>redis := Some r2\<rparr>)
            (''Error getting session from Redis: '' @ str_exn e)"
          by (simp add: get_session_def)
        then show ?thesis by (simp add: stored_keys_simps)
      next
        case (Inr u)
        with ne r g gs \<open>res = Inr fnd\<close> Some s2 have "sm1 = sm\<lparr>redis := Some r2\<rparr>"
          by (simp add: get_session_def)
        then show ?thesis by (simp add: stored_keys_simps)
      qed
      with sub k show ?thesis by simp
    qed
  qed
qed

lemma update_chat_history_unfold:
  assumes "i \<noteq> []" "ms \<noteq> []" "get_session sm now i = (found, sm1)" "redis sm1 = Some r1"
    "redis_set r1 now (session_key i) (appended found now ms) (session_expire_seconds sm) = (res, r2)"
  shows "update_chat_history sm now i ms =
     (case res of
        Inl e \<Rightarrow> (False, log_error (sm1\<lparr>redis := Some r2\<rparr>)
                     (''Error updating chat history in Redis: '' @ str_exn e))
      | Inr u \<Rightarrow> (True, sm1\<lparr>redis := Some r2\<rparr>))"
proof -
  have conn: "redis sm \<noteq> None"
  proof
    assume "redis sm = None"
    then have "get_session sm now i = (None, sm)" by (simp add: get_session_no_store)
    with assms(3,4) \<open>redis sm = None\<close> show False by simp
  qed
  have v: "(case found of
              None \<Rightarrow> \<lparr>created_at = None, updated_at = None, data = None, chat_history = Some []\<rparr>
            | Some s \<Rightarrow> s)
           \<lparr>chat_history := Some (last_n max_history
               ((case chat_history (case found of
                    None \<Rightarrow> \<lparr>created_at = None, updated_at = None, data = None, chat_history = Some []\<rparr>
                  | Some s \<Rightarrow> s) of None \<Rightarrow> [] | Some h \<Rightarrow> h) @ ms)),
             updated_at := Some now\<rparr> = appended found now ms"
    by (cases found) (simp_all add: appended_def history_of_def)
  show ?thesis
    using assms conn
    by (cases res) (auto simp: update_chat_history_def Let_def v)
qed

lemma keys_update_chat_history:
  "stored_keys sm \<subseteq> stored_keys (snd (update_chat_history sm now i ms))"
proof (cases "i = [] \<or> ms = [] \<or> redis sm = None")
  case True
  then show ?thesis by (auto simp: update_chat_history_def)
next
  case False
  obtain found sm1 where g: "get_session sm now i = (found, sm1)" by fastforce
  from keys_get_session [OF g] have k1: "stored_keys sm \<subseteq> stored_keys sm1" .
  show ?thesis
  proof (cases "redis sm1")
    case None
    with False g k1 show ?thesis
      by (auto simp: update_chat_history_def Let_def)
  next
    case (Some r1)
    then have k: "stored_keys sm1 = dom (store r1)" by (simp add: stored_keys_def)
    obtain res r2 where s: "redis_set r1 now (session_key i)
         (appended found now ms) (session_expire_seconds sm) = (res, r2)"
      by fastforce
    from False have ne: "i \<noteq> []" "ms \<noteq> []" by simp_all
    from dom_redis_set [OF s] k k1 have "stored_keys sm \<subseteq> dom (store r2)" by simp
    then show ?thesis
      by (cases res) (simp_all add: update_chat_history_unfold [OF ne g Some s] stored_keys_simps)
  qed
qed

lemma keys_update_session:
  "stored_keys sm \<subseteq> stored_keys (snd (update_session sm now i d))"
proof (cases "i = [] \<or> d = [] \<or> redis sm = None")
  case True
  then show ?thesis by (auto simp: update_session_def)
next
  case False
  then obtain r0 where r0: "redis sm = Some r0" "i \<noteq> []" "d \<noteq> []" by auto
  obtain found sm1 where g: "get_session sm now i = (found, sm1)" by fastforce
  from keys_get_session [OF g] have k1: "stored_keys sm \<subseteq> stored_keys sm1" .
  show ?thesis
  proof (cases found)
    case None
    with r0 g have "snd (update_session sm now i d) = sm1" by (simp add: update_session_def)
    with k1 show ?thesis by simp
  next
    case (Some s)
    show ?thesis
    proof (cases "data s")
      case None
      with r0 g Some have "stored_keys (snd (update_session sm now i d)) = stored_keys sm1"
        by (simp add: update_session_def stored_keys_simps)
      with k1 show ?thesis by simp
    next
      case d0: (Some d0)
      show ?thesis
      proof (cases "redis sm1")
        case None
        with r0 g Some d0 have "snd (update_session sm now i d) = sm1"
          by (simp add: update_session_def)
        with k1 show ?thesis by simp
      next
        case r1: (Some r1)
        then have k: "stored_keys sm1 = dom (store r1)" by (simp add: stored_keys_def)
        obtain res r2 where s2: "redis_set r1 now (session_key i)
            (s\<lparr>data := Some (dict_update d0 d), updated_at := Some now\<rparr>)
            (session_expire_seconds sm) = (res, r2)"
          by fastforce
        from dom_redis_set [OF s2] k k1 have sub: "stored_keys sm \<subseteq> dom (store r2)" by simp
        have "stored_keys (snd (update_session sm now i d)) = dom (store r2)"
          using r0 g Some d0 r1 s2
          by (cases res) (simp_all add: update_session_def stored_keys_simps)
        with sub show ?thesis by simp
      qed
    qed
  qed
qed

text \<open>
  Claim C4.  For every session id, \<^verbatim>\<open>clear_chat_history\<close> returns \<^verbatim>\<open>False\<close> and hands back
  the manager as it was: store, pending faults and log are all untouched, because the
  empty message list is turned away by the guard of \<^verbatim>\<open>update_chat_history\<close>.
  \<^verbatim>\<open>clear_session\<close> is \<^verbatim>\<open>delete_session\<close>, which on a working store removes the
  session's key; no other operation of the manager ever removes a key.
\<close>

theorem clear_chat_history_changes_nothing:
  "clear_chat_history sm now session_id = (False, sm)
   \<and> clear_session sm now session_id = delete_session sm now session_id
   \<and> (store_ok sm \<and> session_id \<noteq> [] \<longrightarrow>
        stored_keys (snd (delete_session sm now session_id))
          = stored_keys sm - {session_key session_id})
   \<and> stored_keys sm \<subseteq> stored_keys (snd (create_session sm now fresh_id initial_data))
   \<and> stored_keys sm \<subseteq> stored_keys (snd (get_session sm now session_id))
   \<and> stored_keys sm \<subseteq> stored_keys (snd (update_session sm now session_id new_data))
   \<and> stored_keys sm \<subseteq> stored_keys (snd (update_chat_history sm now session_id messages))"
proof -
  have a: "clear_chat_history sm now session_id = (False, sm)"
    by (simp add: clear_chat_history_def update_chat_history_def)
  have b: "clear_session sm now session_id = delete_session sm now session_id"
    by (simp add: clear_session_def)
  have c: "stored_keys (snd (delete_session sm now session_id))
          = stored_keys sm - {session_key session_id}"
    if "store_ok sm" "session_id \<noteq> []"
    using that
    by (auto simp: store_ok_def delete_session_def redis_delete_def next_fault_def stored_keys_def
          split: option.splits)
  show ?thesis
    using a b c keys_create_session keys_update_session keys_update_chat_history
      keys_get_session [of sm now session_id]
    by (metis prod.collapse)
qed

text \<open>
  A session with one message: after \<^verbatim>\<open>clear_chat_history\<close> the message is still there.
\<close>

theorem clear_chat_history_changes_nothing_witness:
  "store_ok empty_store \<and> ''s1'' \<noteq> []
   \<and> clear_chat_history (snd (update_chat_history empty_store 0 ''s1'' [user_says ''hi''])) 5 ''s1''
       = (False, snd (update_chat_history empty_store 0 ''s1'' [user_says ''hi'']))
   \<and> history_at (snd (clear_chat_history
         (snd (update_chat_history empty_store 0 ''s1'' [user_says ''hi''])) 5 ''s1'')) 5 ''s1''
       = [user_says ''hi'']
   \<and> stored_keys (snd (delete_session empty_store 0 ''s1''))
       = stored_keys empty_store - {session_key ''s1''}"
proof -
  let ?sm = "snd (update_chat_history empty_store 0 ''s1'' [user_says ''hi''])"
  have ok: "store_ok empty_store" by (simp add: store_ok_def empty_store_def)
  have ne: "''s1'' \<noteq> []" by simp
  have h: "history_at ?sm 5 ''s1'' = [user_says ''hi'']"
    by (simp add: update_chat_history_def get_session_def redis_get_def redis_set_def
          next_fault_def visible_def empty_store_def history_at_def history_of_def
          last_n_def max_history_def)
  from clear_chat_history_changes_nothing [of ?sm 5 "''s1''"]
  have c: "clear_chat_history ?sm 5 ''s1'' = (False, ?sm)" by blast
  from clear_chat_history_changes_nothing [of empty_store 0 "''s1''"] ok ne
  have d: "stored_keys (snd (delete_session empty_store 0 ''s1''))
       = stored_keys empty_store - {session_key ''s1''}" by blast
  from ok ne c d h show ?thesis by simp
qed

subsection \<open>Reads that find nothing\<close>

lemma get_session_faulty_none:
  assumes "redis sm = Some r" "get_session_faulty (faults r)"
  shows "fst (get_session sm now i) = None"
proof (cases "i = []")
  case True
  then show ?thesis by (simp add: get_session_def)
next
  case False
  from assms(2) consider e fs where "faults r = Some e # fs"
    | e fs where "faults r = None # Some e # fs"
    by (cases "faults r" rule: get_session_faulty.cases) simp_all
  then show ?thesis
  proof cases
    case 1
    with False assms(1) show ?thesis
      by (simp add: get_session_def redis_get_def next_fault_def)
  next
    case 2
    with False assms(1) show ?thesis
      by (simp add: get_session_def redis_get_def redis_set_def next_fault_def Let_def
            split: option.split)
  qed
qed

lemma get_session_invisible_none:
  assumes "redis sm = Some r" "visible r now (session_key i) = None"
  shows "fst (get_session sm now i) = None"
proof (cases "i = []")
  case True
  then show ?thesis by (simp add: get_session_def)
next
  case False
  have v: "visible (snd (next_fault r)) now (session_key i) = None"
    using assms(2) by (simp add: visible_def next_fault_def split: list.split)
  obtain f r' where nf: "next_fault r = (f, r')" by fastforce
  with v have "visible r' now (session_key i) = None" by simp
  with False assms(1) nf show ?thesis
    by (cases f) (simp_all add: get_session_def redis_get_def)
qed

text \<open>
  Claim C6.  \<^verbatim>\<open>get_chat_history\<close> returns the empty list when there is no connection,
  when a command of the read fails, when the key is absent, and when the key has expired.
  The function has no way to raise: every command it sends sits inside the \<^verbatim>\<open>try\<close> of
  \<^verbatim>\<open>get_session\<close>, whose \<^verbatim>\<open>except\<close> branch returns \<^verbatim>\<open>None\<close>.
\<close>

theorem get_chat_history_empty:
  assumes "redis sm = None
     \<or> (\<exists>r. redis sm = Some r \<and>
          (get_session_faulty (faults r)
           \<or> store r (session_key session_id) = None
           \<or> (\<exists>s deadline. store r (session_key session_id) = Some (s, deadline)
                  \<and> deadline \<le> now)))"
  shows "fst (get_chat_history sm now session_id) = []"
proof -
  have "fst (get_session sm now session_id) = None"
    using assms
  proof (elim disjE exE conjE)
    assume "redis sm = None"
    then show ?thesis by (simp add: get_session_no_store)
  next
    fix r assume "redis sm = Some r" "get_session_faulty (faults r)"
    then show ?thesis by (rule get_session_faulty_none)
  next
    fix r assume r: "redis sm = Some r" and "store r (session_key session_id) = None"
    then have "visible r now (session_key session_id) = None" by (simp add: visible_def)
    with r show ?thesis by (rule get_session_invisible_none)
  next
    fix r s deadline
    assume r: "redis sm = Some r" and "store r (session_key session_id) = Some (s, deadline)"
      "deadline \<le> now"
    then have "visible r now (session_key session_id) = None" by (simp add: visible_def)
    with r show ?thesis by (rule get_session_invisible_none)
  qed
  then show ?thesis
    by (cases "get_session sm now session_id") (simp add: get_chat_history_def)
qed

text \<open>
  The same session read at its deadline (expired) and one second before; a store whose
  commands fail; a manager without a connection.
\<close>

theorem get_chat_history_empty_witness:
  "fst (get_chat_history expired_store 100 ''s1'') = []
   \<and> fst (get_chat_history expired_store 99 ''s1'') = [user_says ''hi'']
   \<and> fst (get_chat_history failing_store 0 ''s1'') = []
   \<and> fst (get_chat_history (empty_store\<lparr>redis := None\<rparr>) 0 ''s1'') = []"
proof -
  have e: "\<exists>r. redis expired_store = Some r \<and>
      (get_session_faulty (faults r) \<or> store r (session_key ''s1'') = None \<or>
       (\<exists>s deadline. store r (session_key ''s1'') = Some (s, deadline) \<and> deadline \<le> 100))"
    by (simp add: expired_store_def session_key_def)
  have a: "fst (get_chat_history expired_store 100 ''s1'') = []"
    using get_chat_history_empty [of expired_store "''s1''" 100] e by blast
  have f: "\<exists>r. redis failing_store = Some r \<and>
      (get_session_faulty (faults r) \<or> store r (session_key ''s1'') = None \<or>
       (\<exists>s deadline. store r (session_key ''s1'') = Some (s, deadline) \<and> deadline \<le> 0))"
    by (simp add: failing_store_def)
  have b: "fst (get_chat_history failing_store 0 ''s1'') = []"
    using get_chat_history_empty [of failing_store "''s1''" 0] f by blast
  have c: "fst (get_chat_history (empty_store\<lparr>redis := None\<rparr>) 0 ''s1'') = []"
    using get_chat_history_empty [of "empty_store\<lparr>redis := None\<rparr>" "''s1''" 0] by simp
  have d: "fst (get_chat_history expired_store 99 ''s1'') = [user_says ''hi'']"
    by (simp add: get_chat_history_def get_session_def redis_get_def redis_set_def next_fault_def
          visible_def expired_store_def session_key_def Let_def)
  from a b c d show ?thesis by simp
qed

subsection \<open>A failing write\<close>

lemma role_arun: "role (reply (fst (arun executor ms))) = Assistant"
  by (simp add: arun_def assistant_message_def Let_def
        split: prod.split option.split sum.split)

lemma redis_set_fault:
  "faults r = Some e # fs \<Longrightarrow> redis_set r now k v ex = (Inl e, r\<lparr>faults := fs\<rparr>)"
  by (simp add: redis_set_def next_fault_def)

text \<open>
  Claim C5.  When the write inside \<^verbatim>\<open>update_chat_history\<close> raises \<open>e\<close> (the command
  after those of \<^verbatim>\<open>get_session\<close> is the failing one), the call returns \<^verbatim>\<open>False\<close>, the
  log gains the line with \<^verbatim>\<open>str(e)\<close>, and nothing is raised (a write is attempted
  only for a non-empty id and a non-empty list).  When this happens inside the chat
  endpoint, the endpoint still returns the agent's reply with the session id; and in
  every state of the store the endpoint returns a reply whose role is assistant.
\<close>

theorem store_failure_on_append_is_swallowed:
  assumes "session_id \<noteq> []" and "messages \<noteq> []"
    and "get_session sm now session_id = (found, sm1)"
    and "redis sm1 = Some r1" and "faults r1 = Some e # fs"
  shows "update_chat_history sm now session_id messages =
           (False, log_error (sm1\<lparr>redis := Some (r1\<lparr>faults := fs\<rparr>)\<rparr>)
                     (''Error updating chat history in Redis: '' @ str_exn e))
    \<and> (session_of_request sm0 now fresh_id request = (session_id, sm_a)
         \<and> get_chat_history sm_a now session_id = (stored, sm) \<longrightarrow>
        chat executor sm0 now fresh_id request =
          (Inr \<lparr>response_message = reply (fst (arun executor (stored @ request_messages request))),
                response_session_id = session_id,
                response_tool_calls =
                  reply_tool_calls (fst (arun executor (stored @ request_messages request)))\<rparr>,
           log_error (sm1\<lparr>redis := Some (r1\<lparr>faults := fs\<rparr>)\<rparr>)
             (''Error updating chat history in Redis: '' @ str_exn e)))
    \<and> (\<exists>response sm'. chat executor sm0 now fresh_id request = (Inr response, sm')
          \<and> role (response_message response) = Assistant)"
proof -
  have upd: "update_chat_history sm now session_id ms =
           (False, log_error (sm1\<lparr>redis := Some (r1\<lparr>faults := fs\<rparr>)\<rparr>)
                     (''Error updating chat history in Redis: '' @ str_exn e))"
    if "ms \<noteq> []" for ms
    using update_chat_history_unfold [OF assms(1) that assms(3,4) redis_set_fault [OF assms(5)]]
    by simp
  have c: "chat executor sm0 now fresh_id request =
          (Inr \<lparr>response_message = reply (fst (arun executor (stored @ request_messages request))),
                response_session_id = session_id,
                response_tool_calls =
                  reply_tool_calls (fst (arun executor (stored @ request_messages request)))\<rparr>,
           log_error (sm1\<lparr>redis := Some (r1\<lparr>faults := fs\<rparr>)\<rparr>)
             (''Error updating chat history in Redis: '' @ str_exn e))"
    if "session_of_request sm0 now fresh_id request = (session_id, sm_a)"
      "get_chat_history sm_a now session_id = (stored, sm)"
    using that upd [of "stored @ request_messages request @
        [reply (fst (arun executor (stored @ request_messages request)))]"]
    by (simp add: chat_def Let_def)
  have always: "\<exists>response sm'. chat executor sm0 now fresh_id request = (Inr response, sm')
          \<and> role (response_message response) = Assistant"
    by (simp add: chat_def Let_def role_arun split: prod.split)
  from upd [OF assms(2)] c always show ?thesis by blast
qed

text \<open>
  A chat request on a store that answers two reads and then loses the connection.
\<close>

theorem store_failure_on_append_is_swallowed_witness:
  "chat greeter failing_store 0 ''unused'' \<lparr>request_messages = [user_says ''hi''],
       request_session_id = Some ''s1''\<rparr>
     = (Inr \<lparr>response_message = assistant_message ''hello'', response_session_id = ''s1'',
             response_tool_calls = None\<rparr>,
        \<lparr>redis = Some \<lparr>store = Map.empty, faults = []\<rparr>, session_expire_seconds = 86400,
          logged = [''Error updating chat history in Redis: connection lost'']\<rparr>)"
proof -
  let ?e = "Exn RedisError ''connection lost''"
  let ?sm = "failing_store\<lparr>redis := Some \<lparr>store = Map.empty, faults = [None, Some ?e]\<rparr>\<rparr>"
  let ?sm1 = "failing_store\<lparr>redis := Some \<lparr>store = Map.empty, faults = [Some ?e]\<rparr>\<rparr>"
  let ?request = "\<lparr>request_messages = [user_says ''hi''], request_session_id = Some ''s1''\<rparr>"
  have h1: "''s1'' \<noteq> []" and h2: "[user_says ''hi''] \<noteq> []" by simp_all
  have h3: "get_session ?sm 0 ''s1'' = (None, ?sm1)"
    by (simp add: get_session_def redis_get_def next_fault_def visible_def failing_store_def)
  have h4: "redis ?sm1 = Some \<lparr>store = Map.empty, faults = [Some ?e]\<rparr>" by simp
  have h5: "faults \<lparr>store = Map.empty :: string \<rightharpoonup> (session \<times> int), faults = [Some ?e]\<rparr> = Some ?e # []"
    by simp
  have h6: "session_of_request failing_store 0 ''unused'' ?request = (''s1'', failing_store)"
    by (simp add: session_of_request_def)
  have h7: "get_chat_history failing_store 0 ''s1'' = ([], ?sm)"
    by (simp add: get_chat_history_def get_session_def redis_get_def next_fault_def visible_def
          failing_store_def)
  have a: "fst (arun greeter ([] @ request_messages ?request))
      = \<lparr>reply = assistant_message ''hello'', reply_tool_calls = None\<rparr>"
    by (simp add: arun_def greeter_def user_says_def)
  from store_failure_on_append_is_swallowed [OF h1 h2 h3 h4 h5,
      where request = ?request and ?sm0.0 = failing_store and stored = "[]"
        and executor = greeter and fresh_id = "''unused''" and sm_a = failing_store] h6 h7
  have "chat greeter failing_store 0 ''unused'' ?request =
          (Inr \<lparr>response_message = reply (fst (arun greeter ([] @ request_messages ?request))),
                response_session_id = ''s1'',
                response_tool_calls =
                  reply_tool_calls (fst (arun greeter ([] @ request_messages ?request)))\<rparr>,
           log_error (?sm1\<lparr>redis := Some (\<lparr>store = Map.empty, faults = [Some ?e]\<rparr>\<lparr>faults := []\<rparr>)\<rparr>)
             (''Error updating chat history in Redis: '' @ str_exn ?e))"
    by blast
  then show ?thesis
    by (simp only: a) (simp add: log_error_def failing_store_def)
qed

subsection \<open>The agent's short-circuit\<close>





section \<open>Properties of the parser and the executor\<close>

subsection \<open>A match survives when text is added around it\<close>

lemma lit_rest_append:
  "lit_rest ic l xs = Some r \<Longrightarrow> lit_rest ic l (xs @ ys) = Some (r @ ys)"
  by (induction ic l xs rule: lit_rest.induct) (auto split: if_splits)

lemma star_splits_self: "(pos, s) \<in> set (star_splits ic c pos s)"
  by (cases s) simp_all

lemma star_splits_append:
  "(p1, s1) \<in> set (star_splits ic c p xs) \<Longrightarrow>
   \<exists>p1'. (p1', s1 @ ys) \<in> set (star_splits ic c p' (xs @ ys))"
proof (induction xs arbitrary: p p')
  case Nil
  then have "s1 = []" by simp
  with star_splits_self [of p' ys ic c] show ?case by auto
next
  case (Cons x xs)
  show ?case
  proof (cases "(p1, s1) = (p, x # xs)")
    case True
    with star_splits_self [of p' "x # xs @ ys" ic c] show ?thesis
      by (metis Pair_inject append_Cons)
  next
    case False
    with Cons.prems have m: "cls_match ic c x" and "(p1, s1) \<in> set (star_splits ic c (Suc p) xs)"
      by (auto split: if_splits)
    from Cons.IH [OF this(2), of "Suc p'"] obtain q where
      "(q, s1 @ ys) \<in> set (star_splits ic c (Suc p') (xs @ ys))" by blast
    with m show ?thesis by auto
  qed
qed

lemma rmatch_append:
  "bol_free r \<Longrightarrow> (p1, s1, g1) \<in> set (rmatch ic r (p, xs, g)) \<Longrightarrow>
   \<exists>p1' g1'. (p1', s1 @ ys, g1') \<in> set (rmatch ic r (p', xs @ ys, g'))"
proof (induction r arbitrary: p xs g p' g' p1 s1 g1)
  case Bol
  then show ?case by simp
next
  case (Lit l)
  then have "lit_rest ic l xs = Some s1" by (auto split: option.splits)
  from lit_rest_append [OF this, of ys] show ?case by simp
next
  case (Atom c)
  then show ?case by (auto split: list.splits if_splits)
next
  case (Seq a b)
  from Seq.prems obtain p2 s2 g2 where
    a: "(p2, s2, g2) \<in> set (rmatch ic a (p, xs, g))" and
    b: "(p1, s1, g1) \<in> set (rmatch ic b (p2, s2, g2))"
    by auto
  from Seq.prems have fa: "bol_free a" and fb: "bol_free b" by simp_all
  from Seq.IH(1) [OF fa a, of p' g'] obtain p2' g2' where
    a': "(p2', s2 @ ys, g2') \<in> set (rmatch ic a (p', xs @ ys, g'))" by blast
  from Seq.IH(2) [OF fb b, of p2' g2'] obtain p1' g1' where
    "(p1', s1 @ ys, g1') \<in> set (rmatch ic b (p2', s2 @ ys, g2'))" by blast
  with a' show ?case by force
next
  case (Alt a b)
  from Alt.prems have "(p1, s1, g1) \<in> set (rmatch ic a (p, xs, g))
      \<or> (p1, s1, g1) \<in> set (rmatch ic b (p, xs, g))" by simp
  then show ?case
  proof
    assume h: "(p1, s1, g1) \<in> set (rmatch ic a (p, xs, g))"
    from Alt.prems have "bol_free a" by simp
    from Alt.IH(1) [OF this h, of p' g'] show ?thesis by auto
  next
    assume h: "(p1, s1, g1) \<in> set (rmatch ic b (p, xs, g))"
    from Alt.prems have "bol_free b" by simp
    from Alt.IH(2) [OF this h, of p' g'] show ?thesis by auto
  qed
next
  case (Opt a)
  from Opt.prems have "(p1, s1, g1) \<in> set (rmatch ic a (p, xs, g))
      \<or> (p1, s1, g1) = (p, xs, g)" by auto
  then show ?case
  proof
    assume h: "(p1, s1, g1) \<in> set (rmatch ic a (p, xs, g))"
    from Opt.prems have "bol_free a" by simp
    from Opt.IH [OF this h, of p' g'] show ?thesis by auto
  next
    assume "(p1, s1, g1) = (p, xs, g)"
    then show ?thesis by auto
  qed
next
  case (Star c)
  then have "(p1, s1) \<in> set (star_splits ic c p xs)" by auto
  from star_splits_append [OF this, of ys p'] show ?case by force
next
  case (Group n a)
  from Group.prems obtain g0 where
    h: "(p1, s1, g0) \<in> set (rmatch ic a (p, xs, g))" by auto
  from Group.prems have "bol_free a" by simp
  from Group.IH [OF this h, of p' g'] show ?case by force
qed

lemma all_le_Suc: "(\<forall>i \<le> Suc n. P i) \<longleftrightarrow> P 0 \<and> (\<forall>j \<le> n. P (Suc j))"
  by (metis Suc_le_mono le0 not0_implies_Suc)

lemma search_from_None:
  "search_from ic r pos s = None \<longleftrightarrow> (\<forall>i \<le> length s. rmatch ic r (pos + i, drop i s, []) = [])"
proof (induction s arbitrary: pos)
  case Nil
  then show ?case by (auto split: list.splits)
next
  case (Cons x xs)
  show ?case
    unfolding length_Cons all_le_Suc
    using Cons.IH [of "Suc pos"]
    by (auto split: list.splits)
qed

lemma re_search_substring:
  assumes "bol_free r" and "re_search ic r (pre @ mid @ post) = None"
  shows "re_search ic r mid = None"
proof -
  have "rmatch ic r (j, drop j mid, []) = []" if j: "j \<le> length mid" for j
  proof (rule ccontr)
    assume "rmatch ic r (j, drop j mid, []) \<noteq> []"
    then obtain p1 s1 g1 where "(p1, s1, g1) \<in> set (rmatch ic r (j, drop j mid, []))"
      by (metis list.set_intros(1) neq_Nil_conv prod_cases3)
    from rmatch_append [OF assms(1) this, of post "length pre + j" "[]"]
    have ne: "rmatch ic r (length pre + j, drop j mid @ post, []) \<noteq> []" by auto
    from j have d: "drop (length pre + j) (pre @ mid @ post) = drop j mid @ post" by simp
    from j have "length pre + j \<le> length (pre @ mid @ post)" by simp
    with assms(2) have "rmatch ic r (0 + (length pre + j), drop (length pre + j) (pre @ mid @ post), []) = []"
      unfolding re_search_def search_from_None by blast
    with ne d show False by simp
  qed
  then show ?thesis
    unfolding re_search_def search_from_None by simp
qed

lemma strip_substring: "\<exists>pre post. s = pre @ strip s @ post"
proof -
  let ?t = "dropWhile isspace s"
  have "rev (takeWhile isspace (rev ?t) @ dropWhile isspace (rev ?t)) = rev (rev ?t)"
    by (simp only: takeWhile_dropWhile_id)
  then have "rev (dropWhile isspace (rev ?t)) @ rev (takeWhile isspace (rev ?t)) = ?t"
    by (simp only: rev_append rev_rev_ident)
  then have "?t = strip s @ rev (takeWhile isspace (rev ?t))"
    by (simp only: strip_def)
  moreover have "s = takeWhile isspace s @ ?t" by simp
  ultimately show ?thesis by metis
qed

lemma extract_method_substring: "\<exists>pre post. request = pre @ snd (extract_method request) @ post"
proof (cases "re_search True method_re request")
  case None
  then have "request = [] @ snd (extract_method request) @ []" by (simp add: extract_method_def)
  then show ?thesis by blast
next
  case (Some m)
  from strip_substring [of "drop (m_end m) request"] obtain pre post where
    "drop (m_end m) request = pre @ strip (drop (m_end m) request) @ post" by blast
  then have "request = (take (m_end m) request @ pre) @ strip (drop (m_end m) request) @ post"
    by (metis append_assoc append_take_drop_id)
  moreover from Some have "snd (extract_method request) = strip (drop (m_end m) request)"
    by (simp add: extract_method_def)
  ultimately show ?thesis by metis
qed

lemma bol_free_url_re: "bol_free url_re"
  by (simp add: url_re_def plus_def)

text \<open>
  Claim C9.  When the text holds no match of the URL pattern, the parser raises
  \<^verbatim>\<open>ValueError\<close>, and \<^verbatim>\<open>call_from_natural_language\<close> returns the error dictionary with
  \<^verbatim>\<open>is_success\<close> false and hands no request to the session.  The hypothesis is on the
  text as given: what is left after the method is a part of it.
\<close>

theorem no_url_is_a_parse_error:
  assumes "re_search True url_re request = None"
  shows "parse_natural_language_request parse_qsl json_loads request
           = Inl (Exn ValueError ''Could not find a valid URL in the request'')
    \<and> call_from_natural_language parse_qsl json_loads b64encode session_request request
           = (\<lparr>env_status = None, env_headers = None, env_url = None, env_content_type = None,
               env_is_success = False, env_data = None,
               env_error = Some ''Failed to process request: Could not find a valid URL in the request''\<rparr>,
              [])"
proof -
  from extract_method_substring [of request] obtain pre post where
    "request = pre @ snd (extract_method request) @ post" by blast
  with assms have "re_search True url_re (pre @ snd (extract_method request) @ post) = None"
    by simp
  from re_search_substring [OF bol_free_url_re this]
  have n: "re_search True url_re (snd (extract_method request)) = None" .
  have p: "parse_natural_language_request parse_qsl json_loads request
           = Inl (Exn ValueError ''Could not find a valid URL in the request'')"
    using n by (cases "extract_method request") (simp add: parse_natural_language_request_def)
  then show ?thesis by (simp add: call_from_natural_language_def)
qed

text \<open>
  The third example of the docstring of \<^verbatim>\<open>call_from_natural_language\<close> has a host name
  but neither a scheme nor \<^verbatim>\<open>www.\<close>
\<close>

theorem no_url_is_a_parse_error_witness:
  "re_search True url_re ''Call the API at example.com with my API key 12345'' = None
   \<and> call_from_natural_language (\<lambda>s. []) (\<lambda>s. None) (\<lambda>s. s) (\<lambda>rq. Inl (Exn ClientError ''unreachable''))
       ''Call the API at example.com with my API key 12345''
     = (\<lparr>env_status = None, env_headers = None, env_url = None, env_content_type = None,
         env_is_success = False, env_data = None,
         env_error = Some ''Failed to process request: Could not find a valid URL in the request''\<rparr>,
        [])"
proof -
  have h: "re_search True url_re ''Call the API at example.com with my API key 12345'' = None"
    by code_simp
  from no_url_is_a_parse_error [OF h] h show ?thesis by blast
qed

text \<open>
  Claim C8.  When a URL is found and both the API-key pattern and the user/password
  pattern match the remaining text, the parsed \<^verbatim>\<open>auth\<close> is the basic one, with the user
  name and password that were matched; the API-key entry is overwritten.
\<close>

theorem basic_auth_overrides_api_key:
  assumes "parse_natural_language_request parse_qsl json_loads request = Inr parsed"
    and "re_search True api_key_re (remaining_text_of request) = Some key_match"
    and "re_search True basic_auth_re (remaining_text_of request) = Some auth_match"
  shows "p_auth parsed = Some [(''type'', ''basic''), (''username'', group auth_match 1),
                               (''password'', group auth_match 2)]"
proof -
  obtain verb tail where e: "extract_method request = (verb, tail)" by fastforce
  show ?thesis
  proof (cases "re_search True url_re tail")
    case None
    with assms(1) e show ?thesis by (simp add: parse_natural_language_request_def)
  next
    case (Some um)
    with e have r: "remaining_text_of request = strip (drop (m_end um) tail)"
      by (simp add: remaining_text_of_def)
    from assms(1) e Some assms(2,3) [unfolded r] show ?thesis
      by (auto simp: parse_natural_language_request_def Let_def split: prod.splits)
  qed
qed

text \<open>
  A request with a token and a user name and password.
\<close>

theorem basic_auth_overrides_api_key_witness:
  "re_search True api_key_re (remaining_text_of
       ''GET https://api.example.com/users token: abc123 username: bob password: secret'')
     = Some \<lparr>m_start = 0, m_end = 13, m_groups = [(1, ''abc123'')]\<rparr>
   \<and> (\<exists>parsed. parse_natural_language_request (\<lambda>s. []) (\<lambda>s. None)
          ''GET https://api.example.com/users token: abc123 username: bob password: secret''
          = Inr parsed
        \<and> p_auth parsed = Some [(''type'', ''basic''), (''username'', ''bob''),
                                 (''password'', ''secret'')])"
proof -
  let ?text = "''GET https://api.example.com/users token: abc123 username: bob password: secret''"
  let ?parsed = "\<lparr>p_method = ''GET'', p_url = ''https://api.example.com/users'',
        p_headers = [], p_params = [], p_data = None,
        p_auth = Some [(''type'', ''basic''), (''username'', ''bob''), (''password'', ''secret'')],
        p_timeout = 30, p_verify_ssl = True, p_json = None\<rparr>"
  have p: "parse_natural_language_request (\<lambda>s. []) (\<lambda>s. None) ?text = Inr ?parsed"
    by code_simp
  have k: "re_search True api_key_re (remaining_text_of ?text)
     = Some \<lparr>m_start = 0, m_end = 13, m_groups = [(1, ''abc123'')]\<rparr>"
    by code_simp
  have a: "re_search True basic_auth_re (remaining_text_of ?text)
     = Some \<lparr>m_start = 14, m_end = 44, m_groups = [(2, ''secret''), (1, ''bob'')]\<rparr>"
    by code_simp
  from basic_auth_overrides_api_key [OF p k a]
  have "p_auth ?parsed = Some [(''type'', ''basic''), (''username'', ''bob''),
                               (''password'', ''secret'')]"
    by (simp add: group_def)
  with p k show ?thesis by blast
qed

text \<open>
  Claim C7.  When \<^verbatim>\<open>session.request\<close> raises \<open>e\<close> on the request that \<^verbatim>\<open>call\<close> built,
  \<^verbatim>\<open>call\<close> returns the dictionary with \<^verbatim>\<open>status\<close> 0, \<^verbatim>\<open>is_success\<close> false and an
  \<^verbatim>\<open>error\<close> text that ends in \<^verbatim>\<open>str(e)\<close>: "API request failed" for an
  \<^verbatim>\<open>aiohttp.ClientError\<close>, "Unexpected error" for any other exception, a timeout among
  them.  Nothing is raised: \<open>call\<close> yields a dictionary on every input.
\<close>

theorem call_transport_failure:
  assumes "build_request b64encode args = Inr rq" and "session_request rq = Inl e"
  shows "call b64encode session_request args = (error_envelope e, [rq])
    \<and> env_status (error_envelope e) = Some 0
    \<and> env_is_success (error_envelope e) = False
    \<and> env_error (error_envelope e) =
        Some ((if class_of e = ClientError then ''API request failed: ''
               else ''Unexpected error: '') @ str_exn e)"
  using assms by (simp add: call_def error_envelope_def)

text \<open>
  A refused connection and a timeout on a plain GET.
\<close>

theorem call_transport_failure_witness:
  "call (\<lambda>s. s) (\<lambda>rq. Inl (Exn ClientError ''Cannot connect to host'')) example_call
     = (\<lparr>env_status = Some 0, env_headers = None, env_url = None, env_content_type = None,
         env_is_success = False, env_data = None,
         env_error = Some ''API request failed: Cannot connect to host''\<rparr>, [example_http_request])
   \<and> call (\<lambda>s. s) (\<lambda>rq. Inl (Exn TimeoutError ''timed out'')) example_call
     = (\<lparr>env_status = Some 0, env_headers = None, env_url = None, env_content_type = None,
         env_is_success = False, env_data = None,
         env_error = Some ''Unexpected error: timed out''\<rparr>, [example_http_request])"
proof -
  have b: "build_request (\<lambda>s. s) example_call = Inr example_http_request"
    by code_simp
  have c: "(\<lambda>rq. Inl (Exn ClientError ''Cannot connect to host'') :: exn + http_response)
      example_http_request = Inl (Exn ClientError ''Cannot connect to host'')" by simp
  have t: "(\<lambda>rq. Inl (Exn TimeoutError ''timed out'') :: exn + http_response)
      example_http_request = Inl (Exn TimeoutError ''timed out'')" by simp
  from call_transport_failure [OF b c] call_transport_failure [OF b t]
  show ?thesis by (simp add: error_envelope_def)
qed

text \<open>
  Claim C3.  The handler of \<^verbatim>\<open>POST /api/call\<close> passes the keyword \<^verbatim>\<open>body\<close>, which
  \<^verbatim>\<open>APICaller.call\<close> does not have (its parameter is \<^verbatim>\<open>data\<close>): on every request the call
  raises \<^verbatim>\<open>TypeError\<close>, the handler answers with status 500, and no HTTP request is made.
\<close>

theorem call_api_rejects_body_keyword:
  "call_api b64encode session_request request =
     (Inl (HTTPException 500
        (''APICaller.call() got an unexpected keyword argument '' @ quoted ''body'')), [])"
  by (simp add: call_api_def bind_call_def call_parameters_def)

subsection \<open>The URL never holds a question mark\<close>

lemma lit_rest_consumed:
  "lit_rest ic l s = Some s' \<Longrightarrow>
   \<exists>u. s = u @ s' \<and> length u = length l \<and> (\<forall>x \<in> set u. list_ex (\<lambda>c. atom_match ic (Ch c) x) l)"
proof (induction ic l s rule: lit_rest.induct)
  case (1 ic s)
  then show ?case by simp
next
  case (2 ic c cs)
  then show ?case by simp
next
  case (3 ic c cs x xs)
  from "3.prems" have m: "atom_match ic (Ch c) x" and r: "lit_rest ic cs xs = Some s'"
    by (auto split: if_splits)
  from "3.IH" [OF m r] obtain u where
    u: "xs = u @ s'" "length u = length cs" "\<forall>y \<in> set u. list_ex (\<lambda>c. atom_match ic (Ch c) y) cs"
    by blast
  have "x # xs = (x # u) @ s'" using u(1) by simp
  moreover have "length (x # u) = length (c # cs)" using u(2) by simp
  moreover have "\<forall>y \<in> set (x # u). list_ex (\<lambda>c. atom_match ic (Ch c) y) (c # cs)"
    using u(3) m by (auto simp: list_ex_iff)
  ultimately show ?case by blast
qed

lemma star_splits_consumed:
  "(p1, s1) \<in> set (star_splits ic c p s) \<Longrightarrow>
   \<exists>u. s = u @ s1 \<and> p1 = p + length u \<and> (\<forall>x \<in> set u. cls_match ic c x)"
proof (induction s arbitrary: p)
  case Nil
  then show ?case by simp
next
  case (Cons x xs)
  show ?case
  proof (cases "(p1, s1) = (p, x # xs)")
    case True
    then show ?thesis by simp
  next
    case False
    with Cons.prems have m: "cls_match ic c x"
      and "(p1, s1) \<in> set (star_splits ic c (Suc p) xs)"
      by (auto split: if_splits)
    from Cons.IH [OF this(2)] obtain u where
      u: "xs = u @ s1" "p1 = Suc p + length u" "\<forall>y \<in> set u. cls_match ic c y" by blast
    have "x # xs = (x # u) @ s1" using u(1) by simp
    moreover have "p1 = p + length (x # u)" using u(2) by simp
    moreover have "\<forall>y \<in> set (x # u). cls_match ic c y" using u(3) m by simp
    ultimately show ?thesis by blast
  qed
qed

lemma rmatch_consumed:
  "(p1, s1, g1) \<in> set (rmatch ic r (p, s, g)) \<Longrightarrow>
   \<exists>u. s = u @ s1 \<and> p1 = p + length u \<and> (\<forall>x \<in> set u. consumes ic r x)"
proof (induction r arbitrary: p s g p1 s1 g1)
  case Bol
  then show ?case by (auto split: if_splits)
next
  case (Lit l)
  then have l: "lit_rest ic l s = Some s1" and p: "p1 = p + length l"
    by (auto split: option.splits)
  from lit_rest_consumed [OF l] obtain u where
    u: "s = u @ s1" "length u = length l"
       "\<forall>x \<in> set u. list_ex (\<lambda>c. atom_match ic (Ch c) x) l" by blast
  from u(3) have "\<forall>x \<in> set u. consumes ic (Lit l) x" by (simp only: consumes.simps)
  with u(1,2) p show ?case by metis
next
  case (Atom c)
  then obtain x where "s = x # s1" "cls_match ic c x" "p1 = Suc p"
    by (auto split: list.splits if_splits)
  then have "s = [x] @ s1 \<and> p1 = p + length [x] \<and> (\<forall>y \<in> set [x]. consumes ic (Atom c) y)"
    by simp
  then show ?case by blast
next
  case (Seq a b)
  from Seq.prems obtain p2 s2 g2 where
    a: "(p2, s2, g2) \<in> set (rmatch ic a (p, s, g))" and
    b: "(p1, s1, g1) \<in> set (rmatch ic b (p2, s2, g2))"
    by auto
  from Seq.IH(1) [OF a] obtain u where
    u: "s = u @ s2" "p2 = p + length u" "\<forall>x \<in> set u. consumes ic a x" by blast
  from Seq.IH(2) [OF b] obtain v where
    v: "s2 = v @ s1" "p1 = p2 + length v" "\<forall>x \<in> set v. consumes ic b x" by blast
  have "s = (u @ v) @ s1" using u(1) v(1) by simp
  moreover have "p1 = p + length (u @ v)" using u(2) v(2) by simp
  moreover have "\<forall>x \<in> set (u @ v). consumes ic (Seq a b) x" using u(3) v(3) by auto
  ultimately show ?case by blast
next
  case (Alt a b)
  from Alt.prems have "(p1, s1, g1) \<in> set (rmatch ic a (p, s, g))
      \<or> (p1, s1, g1) \<in> set (rmatch ic b (p, s, g))" by simp
  then show ?case
  proof
    assume "(p1, s1, g1) \<in> set (rmatch ic a (p, s, g))"
    from Alt.IH(1) [OF this] show ?thesis by auto
  next
    assume "(p1, s1, g1) \<in> set (rmatch ic b (p, s, g))"
    from Alt.IH(2) [OF this] show ?thesis by auto
  qed
next
  case (Opt a)
  from Opt.prems have "(p1, s1, g1) \<in> set (rmatch ic a (p, s, g))
      \<or> (p1, s1, g1) = (p, s, g)" by auto
  then show ?case
  proof
    assume "(p1, s1, g1) \<in> set (rmatch ic a (p, s, g))"
    from Opt.IH [OF this] show ?thesis by auto
  next
    assume "(p1, s1, g1) = (p, s, g)"
    then have "s = [] @ s1 \<and> p1 = p + length ([] :: string)" by simp
    then show ?thesis by force
  qed
next
  case (Star c)
  then have "(p1, s1) \<in> set (star_splits ic c p s)" by auto
  from star_splits_consumed [OF this] show ?case by auto
next
  case (Group n a)
  from Group.prems obtain g0 where "(p1, s1, g0) \<in> set (rmatch ic a (p, s, g))" by auto
  from Group.IH [OF this] show ?case by auto
qed

lemma search_from_Some:
  "search_from ic r pos s = Some m \<Longrightarrow>
   \<exists>i e s' g others. i \<le> length s \<and> rmatch ic r (pos + i, drop i s, []) = (e, s', g) # others
      \<and> m = \<lparr>m_start = pos + i, m_end = e, m_groups = g\<rparr>"
proof (induction s arbitrary: pos)
  case Nil
  then show ?case by (auto split: list.splits)
next
  case (Cons x xs)
  show ?case
  proof (cases "rmatch ic r (pos, x # xs, [])")
    case Nil
    with Cons.prems have "search_from ic r (Suc pos) xs = Some m" by simp
    from Cons.IH [OF this] obtain i e s' g others where
      "i \<le> length xs" "rmatch ic r (Suc pos + i, drop i xs, []) = (e, s', g) # others"
      "m = \<lparr>m_start = Suc pos + i, m_end = e, m_groups = g\<rparr>" by blast
    then have "Suc i \<le> length (x # xs) \<and>
        rmatch ic r (pos + Suc i, drop (Suc i) (x # xs), []) = (e, s', g) # others \<and>
        m = \<lparr>m_start = pos + Suc i, m_end = e, m_groups = g\<rparr>" by simp
    then show ?thesis by blast
  next
    case (Cons st sts)
    obtain e s' g where "st = (e, s', g)" by (cases st)
    with Cons Cons.prems have "0 \<le> length (x # xs) \<and>
        rmatch ic r (pos + 0, drop 0 (x # xs), []) = (e, s', g) # sts \<and>
        m = \<lparr>m_start = pos + 0, m_end = e, m_groups = g\<rparr>" by auto
    then show ?thesis by blast
  qed
qed

lemma rmatch_Group_elem:
  "(e, s', g) \<in> set (rmatch ic (Group n a) (p, s, g0)) \<Longrightarrow>
   \<exists>g1. (e, s', g1) \<in> set (rmatch ic a (p, s, g0)) \<and> g = (n, take (e - p) s) # g1"
  by auto

lemma url_group_no_question_mark:
  assumes "re_search True url_re s = Some m"
  shows "CHR ''?'' \<notin> set (group m 1)"
proof -
  let ?body = "Alt (Seq (Lit ''http'') (Seq (Opt (Lit ''s'')) (Seq (Lit ''://'') (plus url_char))))
                  (Seq (Lit ''www.'') (plus url_char))"
  from search_from_Some [OF assms [unfolded re_search_def]] obtain i e s' g others where
    r: "rmatch True url_re (i, drop i s, []) = (e, s', g) # others"
    and m: "m = \<lparr>m_start = i, m_end = e, m_groups = g\<rparr>" by auto
  have "url_re = Group 1 ?body" by (simp only: url_re_def)
  with r have "(e, s', g) \<in> set (rmatch True (Group 1 ?body) (i, drop i s, []))"
    by (simp only: list.set_intros(1))
  from rmatch_Group_elem [OF this]
  obtain g0 where b: "(e, s', g0) \<in> set (rmatch True ?body (i, drop i s, []))"
    and g: "g = (1, take (e - i) (drop i s)) # g0" by blast
  from rmatch_consumed [OF b] obtain u where
    u: "drop i s = u @ s'" "e = i + length u" "\<forall>x \<in> set u. consumes True ?body x" by blast
  have "\<not> consumes True ?body CHR ''?''"
    by code_simp
  with u(3) have "CHR ''?'' \<notin> set u" by blast
  moreover from u(1,2) have "take (e - i) (drop i s) = u" by simp
  ultimately show ?thesis using m g by (simp add: group_def)
qed

text \<open>
  On every request that parses, \<^verbatim>\<open>params\<close> is empty: the branch that decodes the query
  string needs a question mark in the URL, and the URL pattern excludes that character.
\<close>

lemma query_string_branch_is_dead:
  assumes "parse_natural_language_request parse_qsl json_loads request = Inr parsed"
  shows "p_params parsed = []"
proof -
  obtain verb tail where e: "extract_method request = (verb, tail)" by fastforce
  show ?thesis
  proof (cases "re_search True url_re tail")
    case None
    with assms e show ?thesis by (simp add: parse_natural_language_request_def)
  next
    case (Some um)
    from url_group_no_question_mark [OF Some] have q: "CHR ''?'' \<notin> set (group um 1)" .
    then have "CHR ''?'' \<notin> set (''https://'' @ group um 1)" by simp
    with q assms e Some show ?thesis
      by (auto simp: parse_natural_language_request_def Let_def split: if_splits prod.splits)
  qed
qed

text \<open>
  Claim C2.  The example request of the specification, parsed: method, URL and auth are
  as claimed, but \<^verbatim>\<open>params\<close> is empty.  The URL pattern stops in front of the question
  mark, so the URL never contains one and the query string is never split off; the text
  \<^verbatim>\<open>x=1\<close> stays in the remaining text and ends up as form data.
\<close>

theorem parse_example_request:
  "parse_natural_language_request parse_qsl json_loads
       ''GET https://api.example.com/users?x=1 token: abc123''
     = Inr \<lparr>p_method = ''GET'', p_url = ''https://api.example.com/users'', p_headers = [],
            p_params = [], p_data = Some [(''x'', ''1'')],
            p_auth = Some [(''type'', ''api_key''), (''key'', ''Authorization''),
                           (''value'', ''Bearer abc123'')],
            p_timeout = 30, p_verify_ssl = True, p_json = None\<rparr>"
  by code_simp

end
